theory Spec2Isabelle
  imports Main "HOL-Library.Multiset"
begin

section \<open>Errors and the execution context\<close>

text \<open>
  The error classes of \<^verbatim>\<open>src/lib/errors.ts\<close>, one constructor per class, named by the
  \<^verbatim>\<open>name\<close> the class sets. The human-readable message is dropped, except for the plain
  JavaScript \<^verbatim>\<open>Error\<close>, which has nothing but its message. \<open>TypeError\<close> is the built-in
  error of the language, thrown by a call of something that is not a function.
\<close>

datatype error =
    ExitFailed
  | RebaseConflict
  | PreconditionsFailed
  | ConcurrentExecutionError
  | DetachedError
  | NoBranchError
  | UntrackedBranchError
  | BadTrunkOperationError
  | Killed
  | Error string
  | TypeError

datatype SCOPE = UPSTACK_EXCLUSIVE | UPSTACK_INCLUSIVE | DOWNSTACK | FULL_STACK

text \<open>The options object handed to \<^verbatim>\<open>metaCache.commit\<close>; a key the caller leaves out is \<open>None\<close>.\<close>

record commitOpts =
  amend :: "bool option"
  noEdit :: "bool option"
  message :: "string option"
  patch :: bool

text \<open>
  \<^verbatim>\<open>TBranchPRInfo\<close>: every field is optional. Only the fields the code under study reads or
  writes are kept.
\<close>

record TBranchPRInfo =
  number :: "nat option"
  base :: "string option"
  isDraft :: "bool option"
  title :: "string option"
  body :: "string option"

datatype TStatus = NOOP | CREATE | RESTACK | CHANGE | DRAFT | PUBLISH

text \<open>
  Everything the actions do to the outside world is recorded, in order, as an event:
  calls on the revision gateway, on the restack engine and on the metadata store, lines
  written to the log, prompts shown to the user and cursor commands sent to the terminal.
  The log lines carry their data instead of the coloured text.
\<close>

datatype event =
    EvAddAll
  | EvCommit commitOpts
  | EvTip
  | EvRestack "string list"
  | EvInfoStatus TStatus string
  | EvInfoHeader string string
  | EvNewline
  | EvPrompt string
  | EvMoveCursor int int
  | EvClearLine int
  | EvUpsertPrInfo string TBranchPRInfo

text \<open>
  The metadata cache (\<^verbatim>\<open>context.metaCache\<close>). Its class is not part of the sources
  studied; the fields below are the state its methods read and write, and the outcome
  fields say what the underlying gateway reports when a commit is made.
\<close>

record metaCacheT =
  parentNames :: "string \<rightharpoonup> string"
  prInfos :: "string \<rightharpoonup> TBranchPRInfo"
  remoteMatches :: "string \<Rightarrow> bool"
  revisions :: "string \<Rightarrow> string"
  currentBranch :: "string option"
  relativeStacks :: "string \<Rightarrow> SCOPE \<Rightarrow> string list"
  stagedChanges :: "string list"
  unstagedChanges :: "string list"
  commitOutcome :: "commitOpts \<Rightarrow> error option"

text \<open>
  The context of one command run. \<open>userAnswers n\<close> is what the user answers to the
  \<open>n\<close>-th confirmation prompt of the run, \<open>restackOutcome\<close> what the restack engine
  reports for a list of branches, and \<open>trace\<close> the events so far, oldest first.
  \<open>stdoutIsTTY\<close> says whether the standard output of the process is a terminal: only
  then does \<^verbatim>\<open>process.stdout\<close> have the cursor methods.
\<close>

record TContext =
  metaCache :: metaCacheT
  interactive :: bool
  userAnswers :: "nat \<Rightarrow> bool"
  restackOutcome :: "string list \<Rightarrow> error option"
  stdoutIsTTY :: bool
  trace :: "event list"

type_synonym 'a action = "TContext \<Rightarrow> (error + 'a) \<times> TContext"

definition emit :: "event \<Rightarrow> TContext \<Rightarrow> TContext" where
  "emit ev ctx = ctx\<lparr>trace := trace ctx @ [ev]\<rparr>"

text \<open>Sequencing of two steps: a thrown error skips the rest.\<close>

definition andThen :: "'a action \<Rightarrow> ('a \<Rightarrow> 'b action) \<Rightarrow> 'b action" where
  "andThen m f = (\<lambda>ctx. case m ctx of
       (Inl e, ctx') \<Rightarrow> (Inl e, ctx')
     | (Inr x, ctx') \<Rightarrow> f x ctx')"

definition done_with :: "'a \<Rightarrow> 'a action" where
  "done_with x = (\<lambda>ctx. (Inr x, ctx))"

definition throw :: "error \<Rightarrow> 'a action" where
  "throw e = (\<lambda>ctx. (Inl e, ctx))"

definition when_do :: "bool \<Rightarrow> unit action \<Rightarrow> unit action" where
  "when_do b m = (if b then m else done_with ())"

section \<open>The collaborators of the commit actions\<close>

text \<open>
  Modelled from the spec: \<^verbatim>\<open>metaCache.addAll\<close> is missing from the sources. It stages
  all pending changes (\<open>stageAll()\<close> of the revision gateway).
\<close>

definition addAll :: "unit action" where
  "addAll = (\<lambda>ctx.
     (Inr (),
      emit EvAddAll
        (ctx\<lparr>metaCache := (metaCache ctx)
               \<lparr>stagedChanges := stagedChanges (metaCache ctx) @ unstagedChanges (metaCache ctx),
                unstagedChanges := []\<rparr>\<rparr>)))"

text \<open>
  Modelled from the spec: \<^verbatim>\<open>ensureSomeStagedChangesPrecondition\<close> of
  \<^verbatim>\<open>lib/preconditions\<close> is missing from the sources. It enforces the precondition that
  some change is staged and fails otherwise with the precondition error.
\<close>

definition ensureSomeStagedChangesPrecondition :: "unit action" where
  "ensureSomeStagedChangesPrecondition = (\<lambda>ctx.
     if stagedChanges (metaCache ctx) = [] then (Inl PreconditionsFailed, ctx)
     else (Inr (), ctx))"

text \<open>
  Modelled from the spec: \<^verbatim>\<open>metaCache.commit\<close> is missing from the sources. The call is
  recorded with its options; it throws what the gateway reports, if anything. What a
  commit does to the index and to the branch tip is not modelled.
\<close>

definition commit :: "commitOpts \<Rightarrow> unit action" where
  "commit opts = (\<lambda>ctx.
     let ctx' = emit (EvCommit opts) ctx in
     case commitOutcome (metaCache ctx) opts of
       Some e \<Rightarrow> (Inl e, ctx')
     | None \<Rightarrow> (Inr (), ctx'))"

text \<open>\<^verbatim>\<open>context.splog.tip\<close>: one hint line on the log.\<close>

definition splog_tip :: "unit action" where
  "splog_tip = (\<lambda>ctx. (Inr (), emit EvTip ctx))"

text \<open>
  Modelled from the spec: the getter \<^verbatim>\<open>metaCache.currentBranchPrecondition\<close> is missing
  from the sources. With no branch checked out the required state is absent, which the
  spec classes as a failed precondition.
\<close>

definition currentBranchPrecondition :: "string action" where
  "currentBranchPrecondition = (\<lambda>ctx.
     case currentBranch (metaCache ctx) of
       None \<Rightarrow> (Inl PreconditionsFailed, ctx)
     | Some b \<Rightarrow> (Inr b, ctx))"

definition getRelativeStack :: "string \<Rightarrow> SCOPE \<Rightarrow> TContext \<Rightarrow> string list" where
  "getRelativeStack b scope ctx = relativeStacks (metaCache ctx) b scope"

text \<open>
  \<^verbatim>\<open>restackBranches\<close> of \<^verbatim>\<open>./restack\<close> is an external collaborator: the call is recorded
  with the branches it is given, and it throws what the engine reports, if anything.
\<close>

definition restackBranches :: "string list \<Rightarrow> unit action" where
  "restackBranches bs = (\<lambda>ctx.
     let ctx' = emit (EvRestack bs) ctx in
     case restackOutcome ctx bs of
       Some e \<Rightarrow> (Inl e, ctx')
     | None \<Rightarrow> (Inr (), ctx'))"

section \<open>The commit actions\<close>

record amendArgs =
  am_addAll :: bool
  am_message :: "string option"
  am_noEdit :: bool
  am_patch :: bool

record createArgs =
  cr_addAll :: bool
  cr_patch :: bool
  cr_message :: "string option"

definition amendCommitOpts :: "amendArgs \<Rightarrow> commitOpts" where
  "amendCommitOpts opts =
     \<lparr>amend = Some True, noEdit = Some (am_noEdit opts), message = am_message opts,
      patch = (\<not> am_addAll opts \<and> am_patch opts)\<rparr>"

definition createCommitOpts :: "createArgs \<Rightarrow> commitOpts" where
  "createCommitOpts opts =
     \<lparr>amend = None, noEdit = None, message = cr_message opts,
      patch = (\<not> cr_addAll opts \<and> cr_patch opts)\<rparr>"

text \<open>\<^verbatim>\<open>commitAmendAction\<close> of \<^verbatim>\<open>src/actions/commit_amend.ts\<close>.\<close>

definition commitAmendAction :: "amendArgs \<Rightarrow> unit action" where
  "commitAmendAction opts =
     andThen (when_do (am_addAll opts) addAll) (\<lambda>_.
     andThen (when_do (am_noEdit opts) ensureSomeStagedChangesPrecondition) (\<lambda>_.
     andThen (commit (amendCommitOpts opts)) (\<lambda>_.
     andThen (when_do (\<not> am_noEdit opts) splog_tip) (\<lambda>_.
     andThen currentBranchPrecondition (\<lambda>cur ctx.
       restackBranches (getRelativeStack cur UPSTACK_EXCLUSIVE ctx) ctx)))))"

text \<open>\<^verbatim>\<open>commitCreateAction\<close> (the unnamed source file \<^verbatim>\<open>part_000\<close>).\<close>

definition commitCreateAction :: "createArgs \<Rightarrow> unit action" where
  "commitCreateAction opts =
     andThen (when_do (cr_addAll opts) addAll) (\<lambda>_.
     andThen ensureSomeStagedChangesPrecondition (\<lambda>_.
     andThen (commit (createCommitOpts opts)) (\<lambda>_.
     andThen currentBranchPrecondition (\<lambda>cur ctx.
       restackBranches (getRelativeStack cur UPSTACK_EXCLUSIVE ctx) ctx))))"

text \<open>The staged changes once the optional stage-all step has run.\<close>

definition stagedAfterAddAll :: "bool \<Rightarrow> TContext \<Rightarrow> string list" where
  "stagedAfterAddAll all ctx =
     stagedChanges (metaCache (if all then snd (addAll ctx) else ctx))"

definition isCommitEvent :: "event \<Rightarrow> bool" where
  "isCommitEvent ev = (case ev of EvCommit _ \<Rightarrow> True | _ \<Rightarrow> False)"

definition isRestackEvent :: "event \<Rightarrow> bool" where
  "isRestackEvent ev = (case ev of EvRestack _ \<Rightarrow> True | _ \<Rightarrow> False)"

text \<open>The events an action added to the trace.\<close>

definition newEvents :: "TContext \<Rightarrow> TContext \<Rightarrow> event list" where
  "newEvents ctx ctx' = drop (length (trace ctx)) (trace ctx')"

section \<open>Preparing the submission plan\<close>

text \<open>
  Modelled from the spec: \<^verbatim>\<open>metaCache.getParentPrecondition\<close> is missing from the
  sources. A branch with no recorded parent lacks the required state, which the spec
  classes as a failed precondition.
\<close>

definition getParentPrecondition :: "string \<Rightarrow> string action" where
  "getParentPrecondition b = (\<lambda>ctx.
     case parentNames (metaCache ctx) b of
       None \<Rightarrow> (Inl PreconditionsFailed, ctx)
     | Some p \<Rightarrow> (Inr p, ctx))"

definition getPrInfo :: "string \<Rightarrow> TContext \<Rightarrow> TBranchPRInfo option" where
  "getPrInfo b ctx = prInfos (metaCache ctx) b"

definition branchMatchesRemote :: "string \<Rightarrow> TContext \<Rightarrow> bool" where
  "branchMatchesRemote b ctx = remoteMatches (metaCache ctx) b"

definition getRevision :: "string \<Rightarrow> TContext \<Rightarrow> string" where
  "getRevision b ctx = revisions (metaCache ctx) b"

text \<open>
  Modelled from the spec: \<^verbatim>\<open>metaCache.upsertPrInfo\<close> is missing from the sources
  (\<open>upsertReviewInfo(branch, partialInfo)\<close> of the store contract). The fields present in
  the partial record replace the stored ones, the others are kept; the call is recorded.
\<close>

definition mergePrInfo :: "TBranchPRInfo \<Rightarrow> TBranchPRInfo \<Rightarrow> TBranchPRInfo" where
  "mergePrInfo old new =
     \<lparr>number = (case number new of None \<Rightarrow> number old | Some v \<Rightarrow> Some v),
      base = (case base new of None \<Rightarrow> base old | Some v \<Rightarrow> Some v),
      isDraft = (case isDraft new of None \<Rightarrow> isDraft old | Some v \<Rightarrow> Some v),
      title = (case title new of None \<Rightarrow> title old | Some v \<Rightarrow> Some v),
      body = (case body new of None \<Rightarrow> body old | Some v \<Rightarrow> Some v)\<rparr>"

definition emptyPrInfo :: TBranchPRInfo where
  "emptyPrInfo = \<lparr>number = None, base = None, isDraft = None, title = None, body = None\<rparr>"

definition upsertPrInfo :: "string \<Rightarrow> TBranchPRInfo \<Rightarrow> TContext \<Rightarrow> TContext" where
  "upsertPrInfo b info ctx =
     emit (EvUpsertPrInfo b info)
       (ctx\<lparr>metaCache := (metaCache ctx)
              \<lparr>prInfos := (prInfos (metaCache ctx))
                 (b \<mapsto> mergePrInfo (case prInfos (metaCache ctx) b of
                                       None \<Rightarrow> emptyPrInfo | Some old \<Rightarrow> old) info)\<rparr>\<rparr>)"

definition splog_info :: "event \<Rightarrow> unit action" where
  "splog_info line = (\<lambda>ctx. (Inr (), emit line ctx))"

definition splog_newline :: "unit action" where
  "splog_newline = (\<lambda>ctx. (Inr (), emit EvNewline ctx))"

definition isPromptEvent :: "event \<Rightarrow> bool" where
  "isPromptEvent ev = (case ev of EvPrompt _ \<Rightarrow> True | _ \<Rightarrow> False)"

text \<open>
  The \<^verbatim>\<open>prompts\<close> call of \<^verbatim>\<open>selectBranch\<close>: one confirmation prompt, answered by the
  user.
\<close>

definition promptConfirm :: "string \<Rightarrow> bool action" where
  "promptConfirm branchName = (\<lambda>ctx.
     (Inr (userAnswers ctx (length (filter isPromptEvent (trace ctx)))),
      emit (EvPrompt branchName) ctx))"

text \<open>
  \<^verbatim>\<open>process.stdout.moveCursor\<close> and \<^verbatim>\<open>process.stdout.clearLine\<close>. The standard output
  has these methods when it is a terminal; when it is not, the call is a call of
  \<^verbatim>\<open>undefined\<close> and throws \<open>TypeError\<close>.
\<close>

definition stdout_moveCursor :: "int \<Rightarrow> int \<Rightarrow> unit action" where
  "stdout_moveCursor dx dy = (\<lambda>ctx.
     if stdoutIsTTY ctx then (Inr (), emit (EvMoveCursor dx dy) ctx)
     else (Inl TypeError, ctx))"

definition stdout_clearLine :: "int \<Rightarrow> unit action" where
  "stdout_clearLine dir = (\<lambda>ctx.
     if stdoutIsTTY ctx then (Inr (), emit (EvClearLine dir) ctx)
     else (Inl TypeError, ctx))"

text \<open>\<^verbatim>\<open>selectBranch\<close>: the prompt, then the two cursor calls that clear its line.\<close>

definition selectBranch :: "string \<Rightarrow> bool action" where
  "selectBranch branchName =
     andThen (promptConfirm branchName) (\<lambda>result.
     andThen (stdout_moveCursor 0 (- 1)) (\<lambda>_.
     andThen (stdout_clearLine 1) (\<lambda>_.
     done_with result)))"

record actionArgs =
  pa_branchName :: string
  pa_updateOnly :: bool
  pa_draft :: bool
  pa_publish :: bool
  pa_dryRun :: bool
  pa_select :: bool

text \<open>\<^verbatim>\<open>TPRSubmissionAction\<close>: \<open>sa_prNumber = None\<close> stands for \<^verbatim>\<open>update: false\<close>.\<close>

record TPRSubmissionAction =
  sa_branchName :: string
  sa_prNumber :: "nat option"

text \<open>The constant \<^verbatim>\<open>calculatedStatus\<close> of \<^verbatim>\<open>getPRAction\<close>.\<close>

definition calculatedStatus ::
  "actionArgs \<Rightarrow> string \<Rightarrow> TBranchPRInfo option \<Rightarrow> TContext \<Rightarrow> TStatus" where
  "calculatedStatus args parentBranchName prInfo ctx =
     (let prNumber = Option.bind prInfo number in
      if prNumber = None then (if pa_updateOnly args then NOOP else CREATE)
      else if Some parentBranchName \<noteq> Option.bind prInfo base then RESTACK
      else if \<not> branchMatchesRemote (pa_branchName args) ctx then CHANGE
      else if pa_draft args \<and> Option.bind prInfo isDraft \<noteq> Some True then DRAFT
      else if pa_publish args \<and> Option.bind prInfo isDraft \<noteq> Some False then PUBLISH
      else NOOP)"

text \<open>\<^verbatim>\<open>getPRAction\<close> of \<^verbatim>\<open>src/actions/submit/prepare_branches.ts\<close>.\<close>

definition getPRAction :: "actionArgs \<Rightarrow> TPRSubmissionAction option action" where
  "getPRAction args =
     andThen (getParentPrecondition (pa_branchName args)) (\<lambda>parentBranchName ctx.
       let prInfo = getPrInfo (pa_branchName args) ctx;
           prNumber = Option.bind prInfo number;
           calculated = calculatedStatus args parentBranchName prInfo ctx
       in andThen
            (if \<not> pa_select args \<or> calculated = NOOP then done_with calculated
             else andThen (selectBranch (pa_branchName args))
                    (\<lambda>chosen. done_with (if chosen then calculated else NOOP)))
            (\<lambda>status.
               andThen (splog_info (EvInfoStatus status (pa_branchName args))) (\<lambda>_.
               done_with
                 (if pa_dryRun args \<or> status = NOOP then None
                  else Some \<lparr>sa_branchName = pa_branchName args, sa_prNumber = prNumber\<rparr>)))
            ctx)"

text \<open>
  The prompting helpers \<^verbatim>\<open>getPRTitle\<close>, \<^verbatim>\<open>getPRBody\<close>, \<^verbatim>\<open>getReviewers\<close> and
  \<^verbatim>\<open>getPRDraftStatus\<close> live in other modules. They are parameters here: each reads the
  context and either returns a value or throws; their own terminal traffic is not recorded.
\<close>

record submitDeps =
  getPRTitle :: "string \<Rightarrow> bool \<Rightarrow> TContext \<Rightarrow> error + string"
  getPRBody :: "string \<Rightarrow> bool \<Rightarrow> TContext \<Rightarrow> error + string"
  getReviewers :: "bool \<Rightarrow> error + string list"
  getPRDraftStatus :: "TContext \<Rightarrow> error + bool"

record creationArgs =
  ci_branchName :: string
  ci_editPRFieldsInline :: bool
  ci_draft :: bool
  ci_publish :: bool
  ci_reviewers :: bool

record creationInfo =
  cr_title :: string
  cr_body :: string
  cr_reviewers :: "string list"
  cr_draft :: bool

text \<open>
  The \<^verbatim>\<open>try\<close> block of \<^verbatim>\<open>getPRCreationInfo\<close>: it fills the local \<^verbatim>\<open>submitInfo\<close> and
  returns it together with its outcome, the error thrown or the title and body obtained.
\<close>

definition gatherTitleAndBody ::
  "submitDeps \<Rightarrow> creationArgs \<Rightarrow> TContext \<Rightarrow> (error + string \<times> string) \<times> TBranchPRInfo" where
  "gatherTitleAndBody deps args ctx =
     (case getPRTitle deps (ci_branchName args) (ci_editPRFieldsInline args) ctx of
        Inl e \<Rightarrow> (Inl e, emptyPrInfo)
      | Inr t \<Rightarrow>
          (case getPRBody deps (ci_branchName args) (ci_editPRFieldsInline args) ctx of
             Inl e \<Rightarrow> (Inl e, emptyPrInfo\<lparr>title := Some t\<rparr>)
           | Inr b \<Rightarrow> (Inr (t, b), emptyPrInfo\<lparr>title := Some t, body := Some b\<rparr>)))"

text \<open>
  The part of \<^verbatim>\<open>getPRCreationInfo\<close> from the \<^verbatim>\<open>try\<close> statement on: the \<^verbatim>\<open>finally\<close>
  block stores \<^verbatim>\<open>submitInfo\<close> whatever the outcome of the \<^verbatim>\<open>try\<close> block, and an error
  thrown there is rethrown after it.
\<close>

definition gatherCreationInfo :: "submitDeps \<Rightarrow> creationArgs \<Rightarrow> creationInfo action" where
  "gatherCreationInfo deps args = (\<lambda>ctx.
     let (outcome, submitInfo) = gatherTitleAndBody deps args ctx;
         ctx' = upsertPrInfo (ci_branchName args) submitInfo ctx
     in case outcome of
          Inl e \<Rightarrow> (Inl e, ctx')
        | Inr (t, b) \<Rightarrow>
            (case getReviewers deps (ci_reviewers args) of
               Inl e \<Rightarrow> (Inl e, ctx')
             | Inr rs \<Rightarrow>
                 (case (if ci_publish args then Inr False
                        else if ci_draft args \<or> \<not> interactive ctx' then Inr True
                        else getPRDraftStatus deps ctx') of
                    Inl e \<Rightarrow> (Inl e, ctx')
                  | Inr createAsDraft \<Rightarrow>
                      (Inr \<lparr>cr_title = t, cr_body = b,
                            cr_reviewers = rs, cr_draft = createAsDraft\<rparr>, ctx'))))"

text \<open>The part of \<^verbatim>\<open>getPRCreationInfo\<close> before the \<^verbatim>\<open>try\<close> statement.\<close>

definition creationHeader :: "creationArgs \<Rightarrow> unit action" where
  "creationHeader args =
     when_do (ci_editPRFieldsInline args)
       (andThen splog_newline (\<lambda>_.
        andThen (getParentPrecondition (ci_branchName args)) (\<lambda>parentBranchName.
        splog_info (EvInfoHeader (ci_branchName args) parentBranchName))))"

text \<open>\<^verbatim>\<open>getPRCreationInfo\<close>.\<close>

definition getPRCreationInfo :: "submitDeps \<Rightarrow> creationArgs \<Rightarrow> creationInfo action" where
  "getPRCreationInfo deps args =
     andThen (creationHeader args) (\<lambda>_. gatherCreationInfo deps args)"

record submitArgs =
  sb_branchNames :: "string list"
  sb_editPRFieldsInline :: bool
  sb_draft :: bool
  sb_publish :: bool
  sb_updateOnly :: bool
  sb_dryRun :: bool
  sb_reviewers :: bool
  sb_select :: bool

datatype submission =
    SubmitUpdate nat "bool option"
  | SubmitCreate creationInfo

record TPRSubmissionInfoEntry =
  se_head :: string
  se_headSha :: string
  se_base :: string
  se_baseSha :: string
  se_action :: submission

definition actionArgsFor :: "submitArgs \<Rightarrow> string \<Rightarrow> actionArgs" where
  "actionArgsFor args branchName =
     \<lparr>pa_branchName = branchName, pa_updateOnly = sb_updateOnly args, pa_draft = sb_draft args,
      pa_publish = sb_publish args, pa_dryRun = sb_dryRun args, pa_select = sb_select args\<rparr>"

definition creationArgsFor :: "submitArgs \<Rightarrow> string \<Rightarrow> creationArgs" where
  "creationArgsFor args branchName =
     \<lparr>ci_branchName = branchName, ci_editPRFieldsInline = sb_editPRFieldsInline args,
      ci_draft = sb_draft args, ci_publish = sb_publish args, ci_reviewers = sb_reviewers args\<rparr>"

text \<open>The first loop of \<^verbatim>\<open>getPRInfoForBranches\<close>: one action per branch, kept when defined.\<close>

fun collectPRActions ::
  "submitArgs \<Rightarrow> string list \<Rightarrow> TPRSubmissionAction list \<Rightarrow> TPRSubmissionAction list action" where
  "collectPRActions args [] prActions ctx = (Inr prActions, ctx)"
| "collectPRActions args (branchName # rest) prActions ctx =
     (case getPRAction (actionArgsFor args branchName) ctx of
        (Inl e, ctx') \<Rightarrow> (Inl e, ctx')
      | (Inr None, ctx') \<Rightarrow> collectPRActions args rest prActions ctx'
      | (Inr (Some a), ctx') \<Rightarrow> collectPRActions args rest (prActions @ [a]) ctx')"

text \<open>The body of the second loop: the plan entry of one action.\<close>

definition submissionEntry ::
  "submitDeps \<Rightarrow> submitArgs \<Rightarrow> TPRSubmissionAction \<Rightarrow> TPRSubmissionInfoEntry action" where
  "submissionEntry deps args a =
     andThen (getParentPrecondition (sa_branchName a)) (\<lambda>parentBranchName ctx.
       let headSha = getRevision (sa_branchName a) ctx;
           baseSha = getRevision parentBranchName ctx
       in andThen
            (case sa_prNumber a of
               Some n \<Rightarrow>
                 done_with (SubmitUpdate n
                   (if sb_draft args then Some True
                    else if sb_publish args then Some False else None))
             | None \<Rightarrow>
                 andThen (getPRCreationInfo deps (creationArgsFor args (sa_branchName a)))
                   (\<lambda>info. done_with (SubmitCreate info)))
            (\<lambda>sub. done_with
               \<lparr>se_head = sa_branchName a, se_headSha = headSha, se_base = parentBranchName,
                se_baseSha = baseSha, se_action = sub\<rparr>)
            ctx)"

fun buildSubmissionInfo ::
  "submitDeps \<Rightarrow> submitArgs \<Rightarrow> TPRSubmissionAction list \<Rightarrow> TPRSubmissionInfoEntry list
     \<Rightarrow> TPRSubmissionInfoEntry list action" where
  "buildSubmissionInfo deps args [] submissionInfo ctx = (Inr submissionInfo, ctx)"
| "buildSubmissionInfo deps args (a # rest) submissionInfo ctx =
     (case submissionEntry deps args a ctx of
        (Inl e, ctx') \<Rightarrow> (Inl e, ctx')
      | (Inr entry, ctx') \<Rightarrow> buildSubmissionInfo deps args rest (submissionInfo @ [entry]) ctx')"

text \<open>\<^verbatim>\<open>getPRInfoForBranches\<close>.\<close>

definition getPRInfoForBranches ::
  "submitDeps \<Rightarrow> submitArgs \<Rightarrow> TPRSubmissionInfoEntry list action" where
  "getPRInfoForBranches deps args =
     andThen (collectPRActions args (sb_branchNames args) []) (\<lambda>prActions.
     andThen (buildSubmissionInfo deps args prActions []) (\<lambda>submissionInfo.
     andThen splog_newline (\<lambda>_. done_with submissionInfo)))"

text \<open>
  The table of section 4.4 of the specification, in the specification's words: the action
  as a function of whether the review number is known, the update-only flag, whether the
  stored base is the actual parent, whether the local content matches the remote, and the
  requested draft or publish transition against the stored draft flag.
\<close>

definition specActionTable ::
  "bool \<Rightarrow> bool \<Rightarrow> bool \<Rightarrow> bool \<Rightarrow> bool \<Rightarrow> bool \<Rightarrow> bool \<Rightarrow> bool \<Rightarrow> TStatus" where
  "specActionTable knownNumber updateOnly baseMatches contentMatches
       draftRequested alreadyDraft publishRequested alreadyPublished =
     (if \<not> knownNumber then (if updateOnly then NOOP else CREATE)
      else if \<not> baseMatches then RESTACK
      else if \<not> contentMatches then CHANGE
      else if draftRequested \<and> \<not> alreadyDraft then DRAFT
      else if publishRequested \<and> \<not> alreadyPublished then PUBLISH
      else NOOP)"

text \<open>
  The table applied to what \<^verbatim>\<open>getPRAction\<close> reads: the stored review record of the
  branch, the flags, the actual parent name \<open>p\<close> and the comparison with the remote.
\<close>

definition tableAction :: "actionArgs \<Rightarrow> TContext \<Rightarrow> string \<Rightarrow> TStatus" where
  "tableAction args ctx p =
     (let stored = prInfos (metaCache ctx) (pa_branchName args) in
      specActionTable
        (Option.bind stored number \<noteq> None)
        (pa_updateOnly args)
        (Option.bind stored base = Some p)
        (remoteMatches (metaCache ctx) (pa_branchName args))
        (pa_draft args) (Option.bind stored isDraft = Some True)
        (pa_publish args) (Option.bind stored isDraft = Some False))"

text \<open>What \<^verbatim>\<open>getPRAction\<close> returns once the status of the branch is settled.\<close>

definition submissionActionFor ::
  "actionArgs \<Rightarrow> TContext \<Rightarrow> TStatus \<Rightarrow> TPRSubmissionAction option" where
  "submissionActionFor args ctx status =
     (if pa_dryRun args \<or> status = NOOP then None
      else Some \<lparr>sa_branchName = pa_branchName args,
                 sa_prNumber = Option.bind (prInfos (metaCache ctx) (pa_branchName args)) number\<rparr>)"

definition isUpsertEvent :: "event \<Rightarrow> bool" where
  "isUpsertEvent ev = (case ev of EvUpsertPrInfo _ _ \<Rightarrow> True | _ \<Rightarrow> False)"

section \<open>The stack builder\<close>

text \<open>A branch is identified by its name.\<close>

datatype Branch = Branch (name: string)

text \<open>
  \<^verbatim>\<open>stackNodeT\<close>. Nodes are objects that refer to each other in both directions and are
  updated in place, so they live in a store: a list of nodes, a node's address being its
  index; \<open>parents\<close> and \<open>children\<close> hold addresses. A \<^verbatim>\<open>Stack\<close> is a store with the
  address of its source node. An object reference never dangles, so in a store that
  stands for a real object graph every address is below the length of the store.
\<close>

record stackNodeT =
  branch :: Branch
  parents :: "nat list"
  children :: "nat list"

record Stack =
  store :: "stackNodeT list"
  source :: nat

text \<open>\<^verbatim>\<open>Array.prototype.pop\<close>: the last element and the array without it.\<close>

definition array_pop :: "'a list \<Rightarrow> 'a option \<times> 'a list" where
  "array_pop xs = (if xs = [] then (None, []) else (Some (last xs), butlast xs))"

text \<open>
  The abstract methods of \<^verbatim>\<open>AbstractStackBuilder\<close> are parameters. The two that walk the
  branch graph may fail to return, which is the result \<open>None\<close>.
\<close>

record stackBuilder =
  fullStackFromBranch :: "Branch \<Rightarrow> Stack option"
  getStackBaseBranch :: "Branch \<Rightarrow> Branch option"
  getChildrenForBranch :: "Branch \<Rightarrow> Branch list"
  getParentsForBranch :: "Branch \<Rightarrow> Branch list"

text \<open>
  The loop of \<^verbatim>\<open>upstackInclusiveFromBranchWithParents\<close>: \<open>None\<close> when it runs forever,
  \<open>Some (Inl e)\<close> when it throws, \<open>Some (Inr stack)\<close> when control reaches the
  \<^verbatim>\<open>return stack\<close> after it.
\<close>

partial_function (option) searchSourceNode ::
  "Stack \<Rightarrow> Branch \<Rightarrow> nat list \<Rightarrow> (error + Stack) option" where
  "searchSourceNode stack b possibleSourceNodes =
     (if length possibleSourceNodes > 0 then
        (case array_pop possibleSourceNodes of
           (None, rest) \<Rightarrow> Some (Inl (Error ''Stack missing source node, shouldnt happen''))
         | (Some node, rest) \<Rightarrow>
             if name (branch (store stack ! node)) = name b
             then Some (Inr (stack\<lparr>source := node\<rparr>))
             else searchSourceNode stack b (rest @ children (store stack ! node)))
      else Some (Inr stack))"

definition upstackInclusiveFromBranchWithParents ::
  "stackBuilder \<Rightarrow> Branch \<Rightarrow> (error + Stack) option" where
  "upstackInclusiveFromBranchWithParents sb b =
     (case fullStackFromBranch sb b of
        None \<Rightarrow> None
      | Some stack \<Rightarrow> searchSourceNode stack b [source stack])"

text \<open>
  One pass through the body of the loop of \<^verbatim>\<open>upstackInclusiveFromBranchWithoutParents\<close>
  for the node \<open>curNode\<close> just popped: a fresh node is allocated for each child branch,
  with \<open>curNode\<close> as its only parent, and they become the children of \<open>curNode\<close>. The
  result is the new store and the addresses of the fresh nodes.
\<close>

definition expandNode ::
  "(Branch \<Rightarrow> Branch list) \<Rightarrow> stackNodeT list \<Rightarrow> nat \<Rightarrow> stackNodeT list \<times> nat list" where
  "expandNode getChildren st curNode =
     (let kids = getChildren (branch (st ! curNode));
          fresh = [length st ..< length st + length kids];
          st' = st @ map (\<lambda>child. \<lparr>branch = child, parents = [curNode], children = []\<rparr>) kids
      in (st'[curNode := (st' ! curNode)\<lparr>children := fresh\<rparr>], fresh))"

text \<open>One iteration on the pair of the store and the work list \<^verbatim>\<open>nodes\<close>.\<close>

definition expandStep ::
  "(Branch \<Rightarrow> Branch list) \<Rightarrow> stackNodeT list \<times> nat list \<Rightarrow> stackNodeT list \<times> nat list" where
  "expandStep getChildren s =
     (case array_pop (snd s) of
        (None, rest) \<Rightarrow> s
      | (Some curNode, rest) \<Rightarrow>
          (case expandNode getChildren (fst s) curNode of
             (st', fresh) \<Rightarrow> (st', rest @ fresh)))"

text \<open>The \<^verbatim>\<open>do ... while (nodes.length > 0)\<close> loop; \<open>None\<close> when it runs forever.\<close>

partial_function (option) expandLoop ::
  "(Branch \<Rightarrow> Branch list) \<Rightarrow> stackNodeT list \<times> nat list \<Rightarrow> stackNodeT list option" where
  "expandLoop getChildren s =
     (if fst (array_pop (snd s)) = None then Some (fst s)
      else let s' = expandStep getChildren s
           in if length (snd s') > 0 then expandLoop getChildren s' else Some (fst s'))"

definition sourceNode :: "Branch \<Rightarrow> stackNodeT" where
  "sourceNode b = \<lparr>branch = b, parents = [], children = []\<rparr>"

definition upstackInclusiveFromBranchWithoutParents ::
  "stackBuilder \<Rightarrow> Branch \<Rightarrow> Stack option" where
  "upstackInclusiveFromBranchWithoutParents sb b =
     map_option (\<lambda>st. \<lparr>store = st, source = 0\<rparr>)
       (expandLoop (getChildrenForBranch sb) ([sourceNode b], [0]))"

text \<open>
  \<^verbatim>\<open>[...new Set(xs)]\<close>: the elements of \<open>xs\<close> in the order of their first occurrence.
\<close>

definition setDedup :: "'a list \<Rightarrow> 'a list" where
  "setDedup xs = rev (remdups (rev xs))"

text \<open>
  What \<^verbatim>\<open>allStackBaseNames\<close> reads from its surroundings: \<^verbatim>\<open>Branch.allBranches()\<close>,
  \<^verbatim>\<open>repoConfig.getIgnoreBranches()\<close> and \<^verbatim>\<open>getTrunk()\<close>.
\<close>

record repoEnv =
  allBranches :: "Branch list"
  ignoreBranches :: "string list"
  trunk :: Branch

text \<open>All of a list of calls return, or the whole does not.\<close>

fun allReturned :: "'a option list \<Rightarrow> 'a list option" where
  "allReturned [] = Some []"
| "allReturned (None # rest) = None"
| "allReturned (Some x # rest) = map_option ((#) x) (allReturned rest)"

definition allStackBaseNames :: "repoEnv \<Rightarrow> stackBuilder \<Rightarrow> Branch list option" where
  "allStackBaseNames env sb =
     (let candidates =
            filter (\<lambda>b. name b \<notin> set (ignoreBranches env) \<and> name b \<noteq> name (trunk env))
              (allBranches env)
      in map_option (\<lambda>baseNames. map Branch (setDedup baseNames))
           (allReturned (map (\<lambda>b. map_option name (getStackBaseBranch sb b)) candidates)))"

definition allStacksFromTrunk :: "repoEnv \<Rightarrow> stackBuilder \<Rightarrow> Stack list option" where
  "allStacksFromTrunk env sb =
     (case allStackBaseNames env sb of
        None \<Rightarrow> None
      | Some baseBranches \<Rightarrow> allReturned (map (fullStackFromBranch sb) baseBranches))"

declare searchSourceNode.simps [code]

declare expandLoop.simps [code]

text \<open>
  The branch graph of a children function: \<open>(c, b)\<close> is an edge when \<open>c\<close> is among the
  children of \<open>b\<close>.
\<close>

definition childRel :: "(Branch \<Rightarrow> Branch list) \<Rightarrow> (Branch \<times> Branch) set" where
  "childRel getChildren = {(c, b). c \<in> set (getChildren b)}"

text \<open>
  A node is expanded when its children are nodes of the store, one for each child branch
  of its branch, in order, each with the node as its only parent.
\<close>

definition expandedNode :: "(Branch \<Rightarrow> Branch list) \<Rightarrow> stackNodeT list \<Rightarrow> nat \<Rightarrow> bool" where
  "expandedNode getChildren st a =
     (map (\<lambda>c. branch (st ! c)) (children (st ! a)) = getChildren (branch (st ! a)) \<and>
      list_all (\<lambda>c. c < length st \<and> parents (st ! c) = [a]) (children (st ! a)))"

text \<open>
  The invariant of the loop on the store and the work list: the source node keeps its
  branch and its empty parent list, the work list holds distinct nodes that have no
  children yet, every other node is expanded, and the branch of every node but the source
  is a child branch of the branch of an earlier node.
\<close>

definition storeInv ::
  "(Branch \<Rightarrow> Branch list) \<Rightarrow> Branch \<Rightarrow> stackNodeT list \<times> nat list \<Rightarrow> bool" where
  "storeInv getChildren b0 s =
     (fst s \<noteq> [] \<and> branch (fst s ! 0) = b0 \<and> parents (fst s ! 0) = [] \<and>
      distinct (snd s) \<and>
      (\<forall>a\<in>set (snd s). a < length (fst s) \<and> children (fst s ! a) = []) \<and>
      (\<forall>a<length (fst s). a \<notin> set (snd s) \<longrightarrow> expandedNode getChildren (fst s) a) \<and>
      (\<forall>a<length (fst s). a \<noteq> 0 \<longrightarrow>
          (\<exists>p<a. branch (fst s ! a) \<in> set (getChildren (branch (fst s ! p))))))"

text \<open>The branches still on the work list: what decreases in every iteration.\<close>

definition pendingBranches :: "stackNodeT list \<times> nat list \<Rightarrow> Branch multiset" where
  "pendingBranches s = mset (map (\<lambda>a. branch (fst s ! a)) (snd s))"

text \<open>What the stack returned for branch \<open>b\<close> is: the tree below \<open>b\<close>, with source \<open>b\<close>.\<close>

definition isUpstackTree :: "(Branch \<Rightarrow> Branch list) \<Rightarrow> Branch \<Rightarrow> Stack \<Rightarrow> bool" where
  "isUpstackTree getChildren b stack =
     (source stack = 0 \<and> store stack \<noteq> [] \<and>
      branch (store stack ! 0) = b \<and> parents (store stack ! 0) = [] \<and>
      list_all (expandedNode getChildren (store stack)) [0 ..< length (store stack)])"

text \<open>
  The depth of a node: the length of its chain of first parents. In the stores the loop
  builds a parent is allocated before its children, which is what ends the recursion.
\<close>

function nodeDepth :: "stackNodeT list \<Rightarrow> nat \<Rightarrow> nat" where
  "nodeDepth st a =
     (case parents (st ! a) of
        [] \<Rightarrow> 0
      | p # _ \<Rightarrow> if p < a then Suc (nodeDepth st p) else 0)"
  by pat_completeness auto
termination
  by (relation "measure snd") auto

declare nodeDepth.simps [simp del]

text \<open>
  Breadth-first expansion, in the specification's words, takes the nodes level by level:
  the node expanded next (the one the loop pops, the last of the work list) is then of
  least depth among the pending ones.
\<close>

definition breadthFirstChoice :: "stackNodeT list \<Rightarrow> nat list \<Rightarrow> bool" where
  "breadthFirstChoice st nodes =
     list_all (\<lambda>a. nodeDepth st (last nodes) \<le> nodeDepth st a) nodes"

subsection \<open>A builder over the branch metadata\<close>

text \<open>
  Modelled from the spec: the subclass that implements the abstract methods of
  \<^verbatim>\<open>AbstractStackBuilder\<close> is missing from the sources. The specification's data model
  gives every branch an optional parent name; the trunk, the ignored branches and the
  untracked branches are the roots of the forest.
\<close>

definition isRootName :: "repoEnv \<Rightarrow> string \<Rightarrow> bool" where
  "isRootName env p =
     (p = name (trunk env) \<or> p \<in> set (ignoreBranches env) \<or> Branch p \<notin> set (allBranches env))"

text \<open>
  Modelled from the spec: \<^verbatim>\<open>getChildrenForBranch\<close> is missing from the sources. The
  children of a branch are the branches whose parent equals it.
\<close>

definition metaGetChildrenForBranch ::
  "repoEnv \<Rightarrow> (string \<rightharpoonup> string) \<Rightarrow> Branch \<Rightarrow> Branch list" where
  "metaGetChildrenForBranch env parentName b =
     filter (\<lambda>c. parentName (name c) = Some (name b)) (allBranches env)"

text \<open>
  Modelled from the spec: \<^verbatim>\<open>getStackBaseBranch\<close> is missing from the sources. The stack
  base of a branch is the ancestor closest to the trunk reached by following parent links:
  the walk stops at the branch whose parent is absent or a root.
\<close>

partial_function (option) metaGetStackBaseBranch ::
  "repoEnv \<Rightarrow> (string \<rightharpoonup> string) \<Rightarrow> Branch \<Rightarrow> Branch option" where
  "metaGetStackBaseBranch env parentName b =
     (case parentName (name b) of
        None \<Rightarrow> Some b
      | Some p \<Rightarrow>
          if isRootName env p then Some b
          else metaGetStackBaseBranch env parentName (Branch p))"

declare metaGetStackBaseBranch.simps [code]

text \<open>
  Modelled from the spec: \<^verbatim>\<open>fullStackFromBranch\<close> is missing from the sources. The full
  stack of a branch is the tree rooted at its stack base, built with the tree construction
  of the abstract class itself.
\<close>

definition metaBuilderBase :: "repoEnv \<Rightarrow> (string \<rightharpoonup> string) \<Rightarrow> stackBuilder" where
  "metaBuilderBase env parentName =
     \<lparr>fullStackFromBranch = (\<lambda>_. None),
      getStackBaseBranch = metaGetStackBaseBranch env parentName,
      getChildrenForBranch = metaGetChildrenForBranch env parentName,
      getParentsForBranch =
        (\<lambda>b. case parentName (name b) of None \<Rightarrow> [] | Some p \<Rightarrow> [Branch p])\<rparr>"

definition metaBuilder :: "repoEnv \<Rightarrow> (string \<rightharpoonup> string) \<Rightarrow> stackBuilder" where
  "metaBuilder env parentName =
     (metaBuilderBase env parentName)
       \<lparr>fullStackFromBranch := (\<lambda>b.
          case metaGetStackBaseBranch env parentName b of
            None \<Rightarrow> None
          | Some baseBranch \<Rightarrow>
              upstackInclusiveFromBranchWithoutParents (metaBuilderBase env parentName) baseBranch)\<rparr>"

text \<open>The branches of the nodes of a stack.\<close>

definition stackBranches :: "Stack \<Rightarrow> Branch set" where
  "stackBranches stack = branch ` set (store stack)"

text \<open>The tracked branches that are neither ignored nor the trunk.\<close>

definition trackedBranches :: "repoEnv \<Rightarrow> Branch set" where
  "trackedBranches env =
     set (filter (\<lambda>b. name b \<notin> set (ignoreBranches env) \<and> name b \<noteq> name (trunk env))
            (allBranches env))"

text \<open>A branch is a stack base when its parent is absent or a root.\<close>

definition isStackBase :: "repoEnv \<Rightarrow> (string \<rightharpoonup> string) \<Rightarrow> Branch \<Rightarrow> bool" where
  "isStackBase env parentName b =
     (case parentName (name b) of None \<Rightarrow> True | Some p \<Rightarrow> isRootName env p)"

text \<open>
  The invariant of the specification's data model that the trunk and the ignored branches
  are roots of the forest: they have no parent.
\<close>

definition rootsHaveNoParent :: "repoEnv \<Rightarrow> (string \<rightharpoonup> string) \<Rightarrow> bool" where
  "rootsHaveNoParent env parentName =
     list_all (\<lambda>c. name c = name (trunk env) \<or> name c \<in> set (ignoreBranches env)
                   \<longrightarrow> parentName (name c) = None)
       (allBranches env)"

section \<open>Example inputs\<close>

definition exampleCache :: metaCacheT where
  "exampleCache =
     \<lparr>parentNames = [''feature'' \<mapsto> ''main'', ''child'' \<mapsto> ''feature''],
      prInfos = Map.empty,
      remoteMatches = (\<lambda>_. True),
      revisions = (\<lambda>b. b),
      currentBranch = Some ''feature'',
      relativeStacks =
        (\<lambda>b scope. if b = ''feature'' \<and> scope = UPSTACK_EXCLUSIVE then [''child''] else []),
      stagedChanges = [],
      unstagedChanges = [],
      commitOutcome = (\<lambda>_. None)\<rparr>"

definition exampleContext :: TContext where
  "exampleContext =
     \<lparr>metaCache = exampleCache, interactive = True, userAnswers = (\<lambda>_. False),
      restackOutcome = (\<lambda>_. None), stdoutIsTTY = True, trace = []\<rparr>"

definition stagedContext :: TContext where
  "stagedContext = exampleContext\<lparr>metaCache := exampleCache\<lparr>stagedChanges := [''a.ts'']\<rparr>\<rparr>"

text \<open>A context whose commits fail, and one of a run that is not interactive.\<close>

definition failingCommitContext :: TContext where
  "failingCommitContext =
     exampleContext\<lparr>metaCache := exampleCache\<lparr>commitOutcome := (\<lambda>_. Some ExitFailed)\<rparr>\<rparr>"

definition nonInteractiveContext :: TContext where
  "nonInteractiveContext = exampleContext\<lparr>interactive := False\<rparr>"

definition amendWithEdit :: amendArgs where
  "amendWithEdit = \<lparr>am_addAll = False, am_message = None, am_noEdit = False, am_patch = False\<rparr>"

definition amendNoEdit :: amendArgs where
  "amendNoEdit = \<lparr>am_addAll = False, am_message = None, am_noEdit = True, am_patch = False\<rparr>"

definition createPlain :: createArgs where
  "createPlain = \<lparr>cr_addAll = False, cr_patch = False, cr_message = Some ''msg''\<rparr>"

definition exampleDeps :: submitDeps where
  "exampleDeps =
     \<lparr>getPRTitle = (\<lambda>b inline ctx. Inr ''Add parser''),
      getPRBody = (\<lambda>b inline ctx. Inl Killed),
      getReviewers = (\<lambda>fetch. Inr []),
      getPRDraftStatus = (\<lambda>ctx. Inr False)\<rparr>"

definition exampleCreationArgs :: creationArgs where
  "exampleCreationArgs =
     \<lparr>ci_branchName = ''feature'', ci_editPRFieldsInline = True, ci_draft = False,
      ci_publish = False, ci_reviewers = False\<rparr>"

text \<open>
  A context where the branch \<open>child\<close> has review number 7 with stored base \<open>main\<close>, while
  its actual parent is \<open>feature\<close>; the user declines every prompt.
\<close>

definition reviewedContext :: TContext where
  "reviewedContext =
     exampleContext\<lparr>metaCache := exampleCache
       \<lparr>prInfos := [''child'' \<mapsto>
           \<lparr>number = Some 7, base = Some ''main'', isDraft = Some False,
            title = Some ''t'', body = Some ''b''\<rparr>]\<rparr>\<rparr>"

text \<open>The same with a user who accepts every prompt, and with an output that is no terminal.\<close>

definition acceptingContext :: TContext where
  "acceptingContext = reviewedContext\<lparr>userAnswers := (\<lambda>_. True)\<rparr>"

definition pipedContext :: TContext where
  "pipedContext = reviewedContext\<lparr>stdoutIsTTY := False\<rparr>"

definition childArgs :: actionArgs where
  "childArgs =
     \<lparr>pa_branchName = ''child'', pa_updateOnly = False, pa_draft = False,
      pa_publish = False, pa_dryRun = False, pa_select = False\<rparr>"

definition childSelectArgs :: actionArgs where
  "childSelectArgs = childArgs\<lparr>pa_select := True\<rparr>"

definition featureUpdateOnlyArgs :: actionArgs where
  "featureUpdateOnlyArgs =
     \<lparr>pa_branchName = ''feature'', pa_updateOnly = True, pa_draft = False,
      pa_publish = False, pa_dryRun = False, pa_select = True\<rparr>"

definition dryRunArgs :: submitArgs where
  "dryRunArgs =
     \<lparr>sb_branchNames = [''feature'', ''child''], sb_editPRFieldsInline = False,
      sb_draft = False, sb_publish = False, sb_updateOnly = False, sb_dryRun = True,
      sb_reviewers = False, sb_select = False\<rparr>"

definition dryRunSelectArgs :: submitArgs where
  "dryRunSelectArgs = dryRunArgs\<lparr>sb_select := True\<rparr>"

text \<open>A full stack that does not contain the branch it was asked for.\<close>

definition orphanStack :: Stack where
  "orphanStack =
     \<lparr>store = [\<lparr>branch = Branch ''base'', parents = [], children = [1]\<rparr>,
               \<lparr>branch = Branch ''mid'', parents = [0], children = []\<rparr>],
      source = 0\<rparr>"

definition orphanBuilder :: stackBuilder where
  "orphanBuilder =
     \<lparr>fullStackFromBranch = (\<lambda>_. Some orphanStack),
      getStackBaseBranch = (\<lambda>_. Some (Branch ''base'')),
      getChildrenForBranch = (\<lambda>_. []),
      getParentsForBranch = (\<lambda>_. [])\<rparr>"

text \<open>A branch graph: \<open>a\<close> has children \<open>b\<close> and \<open>c\<close>, \<open>b\<close> has \<open>d\<close>, \<open>c\<close> has \<open>e\<close>.\<close>

definition exChildren :: "Branch \<Rightarrow> Branch list" where
  "exChildren b =
     (if name b = ''a'' then [Branch ''b'', Branch ''c'']
      else if name b = ''b'' then [Branch ''d'']
      else if name b = ''c'' then [Branch ''e'']
      else [])"

definition exBuilder :: stackBuilder where
  "exBuilder =
     \<lparr>fullStackFromBranch = (\<lambda>_. None),
      getStackBaseBranch = (\<lambda>_. None),
      getChildrenForBranch = exChildren,
      getParentsForBranch = (\<lambda>_. [])\<rparr>"

definition exStoreAfterTwo :: "stackNodeT list" where
  "exStoreAfterTwo =
     [\<lparr>branch = Branch ''a'', parents = [], children = [1, 2]\<rparr>,
      \<lparr>branch = Branch ''b'', parents = [0], children = []\<rparr>,
      \<lparr>branch = Branch ''c'', parents = [0], children = [3]\<rparr>,
      \<lparr>branch = Branch ''e'', parents = [2], children = []\<rparr>]"

definition exStoreFinal :: "stackNodeT list" where
  "exStoreFinal =
     [\<lparr>branch = Branch ''a'', parents = [], children = [1, 2]\<rparr>,
      \<lparr>branch = Branch ''b'', parents = [0], children = [4]\<rparr>,
      \<lparr>branch = Branch ''c'', parents = [0], children = [3]\<rparr>,
      \<lparr>branch = Branch ''e'', parents = [2], children = []\<rparr>,
      \<lparr>branch = Branch ''d'', parents = [1], children = []\<rparr>]"

text \<open>
  A repository: \<open>f2\<close> on \<open>f1\<close> on the trunk \<open>main\<close>, \<open>g1\<close> on \<open>main\<close>, and the ignored
  branch \<open>wip\<close>.
\<close>

definition exEnv :: repoEnv where
  "exEnv =
     \<lparr>allBranches = [Branch ''main'', Branch ''f1'', Branch ''f2'', Branch ''g1'', Branch ''wip''],
      ignoreBranches = [''wip''],
      trunk = Branch ''main''\<rparr>"

definition exParentName :: "string \<rightharpoonup> string" where
  "exParentName = [''f1'' \<mapsto> ''main'', ''f2'' \<mapsto> ''f1'', ''g1'' \<mapsto> ''main'']"

text \<open>The same repository, where an untracked branch \<open>ghost\<close> names \<open>f1\<close> as its parent.\<close>

definition ghostParentName :: "string \<rightharpoonup> string" where
  "ghostParentName = exParentName(''ghost'' \<mapsto> ''f1'')"

definition exStacks :: "Stack list" where
  "exStacks =
     [\<lparr>store = [\<lparr>branch = Branch ''f1'', parents = [], children = [1]\<rparr>,
                \<lparr>branch = Branch ''f2'', parents = [0], children = []\<rparr>],
       source = 0\<rparr>,
      \<lparr>store = [\<lparr>branch = Branch ''g1'', parents = [], children = []\<rparr>], source = 0\<rparr>]"

section \<open>Properties of the commit actions\<close>

lemmas action_defs =
  andThen_def when_do_def done_with_def throw_def emit_def addAll_def
  ensureSomeStagedChangesPrecondition_def commit_def splog_tip_def
  currentBranchPrecondition_def getRelativeStack_def restackBranches_def

lemmas example_defs =
  exampleCache_def exampleContext_def stagedContext_def amendWithEdit_def
  amendNoEdit_def createPlain_def exampleDeps_def exampleCreationArgs_def
  reviewedContext_def childArgs_def childSelectArgs_def featureUpdateOnlyArgs_def
  dryRunArgs_def failingCommitContext_def nonInteractiveContext_def acceptingContext_def
  pipedContext_def dryRunSelectArgs_def

text \<open>
  Claim C4, as the code has it: \<^verbatim>\<open>commitCreateAction\<close> always, and
  \<^verbatim>\<open>commitAmendAction\<close> when \<open>noEdit\<close> is set, fail with the precondition error when no
  change is staged after the optional stage-all step, and no commit has been attempted
  by then. (An amend that edits the message does not check the precondition.)
\<close>

theorem commit_precondition_enforced:
  "(stagedAfterAddAll (cr_addAll copts) ctx = [] \<longrightarrow>
      fst (commitCreateAction copts ctx) = Inl PreconditionsFailed \<and>
      filter isCommitEvent (newEvents ctx (snd (commitCreateAction copts ctx))) = []) \<and>
   (am_noEdit aopts \<and> stagedAfterAddAll (am_addAll aopts) ctx = [] \<longrightarrow>
      fst (commitAmendAction aopts ctx) = Inl PreconditionsFailed \<and>
      filter isCommitEvent (newEvents ctx (snd (commitAmendAction aopts ctx))) = [])"
  by (auto simp: commitCreateAction_def commitAmendAction_def stagedAfterAddAll_def newEvents_def
      isCommitEvent_def action_defs)

theorem commit_precondition_enforced_witness:
  "stagedAfterAddAll (cr_addAll createPlain) exampleContext = [] \<and>
   am_noEdit amendNoEdit \<and> stagedAfterAddAll (am_addAll amendNoEdit) exampleContext = [] \<and>
   fst (commitCreateAction createPlain exampleContext) = Inl PreconditionsFailed \<and>
   filter isCommitEvent
     (newEvents exampleContext (snd (commitCreateAction createPlain exampleContext))) = [] \<and>
   fst (commitAmendAction amendNoEdit exampleContext) = Inl PreconditionsFailed \<and>
   filter isCommitEvent
     (newEvents exampleContext (snd (commitAmendAction amendNoEdit exampleContext))) = []"
  using commit_precondition_enforced [of createPlain exampleContext amendNoEdit]
  by (simp add: stagedAfterAddAll_def example_defs)

text \<open>
  Claim C4 as stated fails for an amend that edits the message: with nothing staged and
  \<open>noEdit = False\<close> the action does not fail; it commits, prints the hint and restacks.
\<close>

theorem commit_precondition_counterexample:
  "stagedAfterAddAll (am_addAll amendWithEdit) exampleContext = [] \<and>
   fst (commitAmendAction amendWithEdit exampleContext) = Inr () \<and>
   newEvents exampleContext (snd (commitAmendAction amendWithEdit exampleContext)) =
     [EvCommit \<lparr>amend = Some True, noEdit = Some False, message = None, patch = False\<rparr>,
      EvTip, EvRestack [''child'']]"
  by (simp add: commitAmendAction_def stagedAfterAddAll_def newEvents_def amendCommitOpts_def
      example_defs action_defs)

text \<open>
  Claim C8: once the commit has succeeded, both actions call the restack engine exactly
  once, as their last step, on the \<open>UPSTACK_EXCLUSIVE\<close> relative stack of the current
  branch. The events of the whole run are listed.
\<close>

theorem restack_upstack_exclusive_after_commit:
  "currentBranch (metaCache ctx) = Some cur \<longrightarrow>
     (stagedAfterAddAll (cr_addAll copts) ctx \<noteq> [] \<and>
      commitOutcome (metaCache ctx) (createCommitOpts copts) = None \<longrightarrow>
        newEvents ctx (snd (commitCreateAction copts ctx)) =
          (if cr_addAll copts then [EvAddAll] else []) @
          [EvCommit (createCommitOpts copts),
           EvRestack (relativeStacks (metaCache ctx) cur UPSTACK_EXCLUSIVE)]) \<and>
     ((am_noEdit aopts \<longrightarrow> stagedAfterAddAll (am_addAll aopts) ctx \<noteq> []) \<and>
      commitOutcome (metaCache ctx) (amendCommitOpts aopts) = None \<longrightarrow>
        newEvents ctx (snd (commitAmendAction aopts ctx)) =
          (if am_addAll aopts then [EvAddAll] else []) @
          [EvCommit (amendCommitOpts aopts)] @
          (if am_noEdit aopts then [] else [EvTip]) @
          [EvRestack (relativeStacks (metaCache ctx) cur UPSTACK_EXCLUSIVE)])"
  by (auto simp: commitCreateAction_def commitAmendAction_def stagedAfterAddAll_def newEvents_def
      action_defs Let_def split: option.splits)

theorem restack_upstack_exclusive_after_commit_witness:
  "currentBranch (metaCache stagedContext) = Some ''feature'' \<and>
   stagedAfterAddAll (cr_addAll createPlain) stagedContext \<noteq> [] \<and>
   commitOutcome (metaCache stagedContext) (createCommitOpts createPlain) = None \<and>
   stagedAfterAddAll (am_addAll amendNoEdit) stagedContext \<noteq> [] \<and>
   commitOutcome (metaCache stagedContext) (amendCommitOpts amendNoEdit) = None \<and>
   newEvents stagedContext (snd (commitCreateAction createPlain stagedContext)) =
     [EvCommit (createCommitOpts createPlain), EvRestack [''child'']] \<and>
   newEvents stagedContext (snd (commitAmendAction amendNoEdit stagedContext)) =
     [EvCommit (amendCommitOpts amendNoEdit), EvRestack [''child'']]"
  using restack_upstack_exclusive_after_commit
    [of stagedContext "''feature''" createPlain amendNoEdit]
  by (simp add: stagedAfterAddAll_def example_defs)

text \<open>
  Claim C9, as the code has it: \<^verbatim>\<open>commitCreateAction\<close> never prints the hint;
  \<^verbatim>\<open>commitAmendAction\<close> never prints it when \<open>noEdit\<close> is set, and when \<open>noEdit\<close> is not
  set prints it exactly once if the commit call returns and not at all if the commit
  throws, whether the run is interactive or not.
\<close>

theorem commit_tip_count:
  "count_list (newEvents ctx (snd (commitCreateAction copts ctx))) EvTip = 0 \<and>
   count_list (newEvents ctx (snd (commitAmendAction aopts ctx))) EvTip =
     (if \<not> am_noEdit aopts \<and> commitOutcome (metaCache ctx) (amendCommitOpts aopts) = None
      then 1 else 0)"
  by (auto simp: commitCreateAction_def commitAmendAction_def newEvents_def
      action_defs Let_def split: option.splits)

theorem commit_tip_count_witness:
  "count_list (newEvents exampleContext (snd (commitCreateAction createPlain exampleContext)))
     EvTip = 0 \<and>
   count_list (newEvents exampleContext (snd (commitAmendAction amendNoEdit exampleContext)))
     EvTip = 0 \<and>
   count_list (newEvents exampleContext (snd (commitAmendAction amendWithEdit exampleContext)))
     EvTip = 1"
  using commit_tip_count [of exampleContext createPlain amendNoEdit]
    commit_tip_count [of exampleContext createPlain amendWithEdit]
  by (simp add: example_defs)

text \<open>
  Claim C9 as stated fails twice: an amend that edits the message prints no hint when its
  commit throws, so the hint is not printed once per invocation; and it prints the hint
  in a run that is not interactive.
\<close>

theorem commit_tip_counterexample:
  "fst (commitAmendAction amendWithEdit failingCommitContext) = Inl ExitFailed \<and>
   count_list
     (newEvents failingCommitContext (snd (commitAmendAction amendWithEdit failingCommitContext)))
     EvTip = 0 \<and>
   interactive nonInteractiveContext = False \<and>
   count_list
     (newEvents nonInteractiveContext (snd (commitAmendAction amendWithEdit nonInteractiveContext)))
     EvTip = 1"
  by (simp add: commitAmendAction_def newEvents_def amendCommitOpts_def example_defs action_defs)

section \<open>Properties of the submission plan\<close>

lemma calculatedStatus_table:
  "calculatedStatus args p (getPrInfo (pa_branchName args) ctx) ctx = tableAction args ctx p"
  by (auto simp: calculatedStatus_def tableAction_def specActionTable_def getPrInfo_def
      branchMatchesRemote_def Let_def)

lemma selectBranch_eq:
  "selectBranch b ctx =
     (if stdoutIsTTY ctx
      then (Inr (userAnswers ctx (length (filter isPromptEvent (trace ctx)))),
            ctx\<lparr>trace := trace ctx @ [EvPrompt b, EvMoveCursor 0 (- 1), EvClearLine 1]\<rparr>)
      else (Inl TypeError, emit (EvPrompt b) ctx))"
  by (simp add: selectBranch_def promptConfirm_def stdout_moveCursor_def stdout_clearLine_def
      andThen_def done_with_def emit_def)

text \<open>
  What \<^verbatim>\<open>getPRAction\<close> does for a branch with parent \<open>p\<close>, in every mode, in terms of the
  table.
\<close>

lemma getPRAction_eq:
  assumes "parentNames (metaCache ctx) (pa_branchName args) = Some p"
  shows "getPRAction args ctx =
       (if \<not> pa_select args \<or> tableAction args ctx p = NOOP then
          (Inr (submissionActionFor args ctx (tableAction args ctx p)),
           emit (EvInfoStatus (tableAction args ctx p) (pa_branchName args)) ctx)
        else if \<not> stdoutIsTTY ctx then (Inl TypeError, emit (EvPrompt (pa_branchName args)) ctx)
        else if userAnswers ctx (length (filter isPromptEvent (trace ctx))) then
          (Inr (submissionActionFor args ctx (tableAction args ctx p)),
           ctx\<lparr>trace := trace ctx @
             [EvPrompt (pa_branchName args), EvMoveCursor 0 (- 1), EvClearLine 1,
              EvInfoStatus (tableAction args ctx p) (pa_branchName args)]\<rparr>)
        else
          (Inr None,
           ctx\<lparr>trace := trace ctx @
             [EvPrompt (pa_branchName args), EvMoveCursor 0 (- 1), EvClearLine 1,
              EvInfoStatus NOOP (pa_branchName args)]\<rparr>))"
  using assms
  by (simp add: getPRAction_def getParentPrecondition_def Let_def getPrInfo_def
      calculatedStatus_table [unfolded getPrInfo_def] selectBranch_eq splog_info_def
      submissionActionFor_def andThen_def done_with_def emit_def)

lemma getPRAction_no_parent:
  assumes "parentNames (metaCache ctx) (pa_branchName args) = None"
  shows "getPRAction args ctx = (Inl PreconditionsFailed, ctx)"
  using assms by (simp add: getPRAction_def getParentPrecondition_def andThen_def)

text \<open>
  Claim C1: for every branch with a parent, in every mode, the status \<^verbatim>\<open>getPRAction\<close>
  calculates is the value of the table of section 4.4 on the five inputs (known review
  number, update-only flag, stored base against the actual parent, local content against
  the remote, and the requested draft or publish transition against the stored draft
  flag), and that value decides what \<^verbatim>\<open>getPRAction\<close> logs and returns: without
  interactive selection, or when the value is NOOP, directly; with interactive selection,
  after the prompt, whenever the user accepts (a decline gives NOOP, and with an output
  that is no terminal the prompt ends in \<open>TypeError\<close>).
\<close>

theorem getPRAction_follows_table:
  "parentNames (metaCache ctx) (pa_branchName args) = Some p \<longrightarrow>
     calculatedStatus args p (getPrInfo (pa_branchName args) ctx) ctx = tableAction args ctx p \<and>
     getPRAction args ctx =
       (if \<not> pa_select args \<or> tableAction args ctx p = NOOP then
          (Inr (submissionActionFor args ctx (tableAction args ctx p)),
           emit (EvInfoStatus (tableAction args ctx p) (pa_branchName args)) ctx)
        else if \<not> stdoutIsTTY ctx then (Inl TypeError, emit (EvPrompt (pa_branchName args)) ctx)
        else if userAnswers ctx (length (filter isPromptEvent (trace ctx))) then
          (Inr (submissionActionFor args ctx (tableAction args ctx p)),
           ctx\<lparr>trace := trace ctx @
             [EvPrompt (pa_branchName args), EvMoveCursor 0 (- 1), EvClearLine 1,
              EvInfoStatus (tableAction args ctx p) (pa_branchName args)]\<rparr>)
        else
          (Inr None,
           ctx\<lparr>trace := trace ctx @
             [EvPrompt (pa_branchName args), EvMoveCursor 0 (- 1), EvClearLine 1,
              EvInfoStatus NOOP (pa_branchName args)]\<rparr>))"
  using getPRAction_eq [of ctx args p] calculatedStatus_table [of args p ctx] by blast

theorem getPRAction_follows_table_witness:
  "parentNames (metaCache reviewedContext) (pa_branchName childArgs) = Some ''feature'' \<and>
   tableAction childArgs reviewedContext ''feature'' = RESTACK \<and>
   getPRAction childArgs reviewedContext =
     (Inr (Some \<lparr>sa_branchName = ''child'', sa_prNumber = Some 7\<rparr>),
      emit (EvInfoStatus RESTACK ''child'') reviewedContext) \<and>
   parentNames (metaCache acceptingContext) (pa_branchName childSelectArgs) = Some ''feature'' \<and>
   pa_select childSelectArgs \<and>
   tableAction childSelectArgs acceptingContext ''feature'' = RESTACK \<and>
   fst (getPRAction childSelectArgs acceptingContext) =
     Inr (Some \<lparr>sa_branchName = ''child'', sa_prNumber = Some 7\<rparr>)"
proof -
  have t1: "tableAction childArgs reviewedContext ''feature'' = RESTACK"
    and t2: "tableAction childSelectArgs acceptingContext ''feature'' = RESTACK"
    by (simp_all add: tableAction_def specActionTable_def example_defs)
  have p1: "parentNames (metaCache reviewedContext) (pa_branchName childArgs) = Some ''feature''"
    and p2: "parentNames (metaCache acceptingContext) (pa_branchName childSelectArgs) =
      Some ''feature''"
    by (simp_all add: example_defs)
  have a1: "submissionActionFor childArgs reviewedContext RESTACK =
      Some \<lparr>sa_branchName = ''child'', sa_prNumber = Some 7\<rparr>"
    and a2: "submissionActionFor childSelectArgs acceptingContext RESTACK =
      Some \<lparr>sa_branchName = ''child'', sa_prNumber = Some 7\<rparr>"
    by (simp_all add: submissionActionFor_def example_defs)
  have f: "\<not> pa_select childArgs" "pa_select childSelectArgs" "stdoutIsTTY acceptingContext"
    "userAnswers acceptingContext (length (filter isPromptEvent (trace acceptingContext)))"
    by (simp_all add: example_defs)
  show ?thesis
    using getPRAction_follows_table [of reviewedContext childArgs "''feature''"]
      getPRAction_follows_table [of acceptingContext childSelectArgs "''feature''"]
    by (simp add: t1 t2 p1 p2 a1 a2 f) (simp add: childArgs_def)
qed

text \<open>
  Claim C7, as the code has it: with interactive selection on and an output that is a
  terminal, a branch whose calculated action is not NOOP and whose prompt the user
  declines gets NOOP: no action is returned and NOOP is logged. A branch whose calculated
  action is NOOP is not prompted for. No path of \<^verbatim>\<open>getPRAction\<close> changes the metadata
  cache or calls \<^verbatim>\<open>upsertPrInfo\<close>.
\<close>

theorem decline_downgrades_to_noop:
  "metaCache (snd (getPRAction args ctx)) = metaCache ctx \<and>
   filter isUpsertEvent (newEvents ctx (snd (getPRAction args ctx))) = [] \<and>
   (parentNames (metaCache ctx) (pa_branchName args) = Some p \<and> pa_select args \<longrightarrow>
     (tableAction args ctx p \<noteq> NOOP \<and> stdoutIsTTY ctx \<and>
      \<not> userAnswers ctx (length (filter isPromptEvent (trace ctx))) \<longrightarrow>
        fst (getPRAction args ctx) = Inr None \<and>
        newEvents ctx (snd (getPRAction args ctx)) =
          [EvPrompt (pa_branchName args), EvMoveCursor 0 (- 1), EvClearLine 1,
           EvInfoStatus NOOP (pa_branchName args)]) \<and>
     (tableAction args ctx p = NOOP \<longrightarrow>
        filter isPromptEvent (newEvents ctx (snd (getPRAction args ctx))) = []))"
proof (cases "parentNames (metaCache ctx) (pa_branchName args)")
  case None
  then show ?thesis
    by (simp add: getPRAction_no_parent newEvents_def)
next
  case (Some q)
  show ?thesis
    by (simp add: Some getPRAction_eq [OF Some] newEvents_def emit_def isUpsertEvent_def
        isPromptEvent_def)
qed

theorem decline_downgrades_to_noop_witness:
  "parentNames (metaCache reviewedContext) (pa_branchName childSelectArgs) = Some ''feature'' \<and>
   pa_select childSelectArgs \<and>
   tableAction childSelectArgs reviewedContext ''feature'' \<noteq> NOOP \<and>
   stdoutIsTTY reviewedContext \<and>
   \<not> userAnswers reviewedContext (length (filter isPromptEvent (trace reviewedContext))) \<and>
   fst (getPRAction childSelectArgs reviewedContext) = Inr None \<and>
   metaCache (snd (getPRAction childSelectArgs reviewedContext)) = metaCache reviewedContext \<and>
   parentNames (metaCache reviewedContext) (pa_branchName featureUpdateOnlyArgs) = Some ''main'' \<and>
   pa_select featureUpdateOnlyArgs \<and>
   tableAction featureUpdateOnlyArgs reviewedContext ''main'' = NOOP \<and>
   filter isPromptEvent
     (newEvents reviewedContext (snd (getPRAction featureUpdateOnlyArgs reviewedContext))) = []"
proof -
  have t1: "tableAction childSelectArgs reviewedContext ''feature'' = RESTACK"
    by (simp add: tableAction_def specActionTable_def example_defs)
  have t2: "tableAction featureUpdateOnlyArgs reviewedContext ''main'' = NOOP"
    by (simp add: tableAction_def specActionTable_def example_defs)
  have p1: "parentNames (metaCache reviewedContext) (pa_branchName childSelectArgs) = Some ''feature''"
    and p2: "parentNames (metaCache reviewedContext) (pa_branchName featureUpdateOnlyArgs) = Some ''main''"
    and s1: "pa_select childSelectArgs" and s2: "pa_select featureUpdateOnlyArgs"
    and tty: "stdoutIsTTY reviewedContext"
    and u: "\<not> userAnswers reviewedContext (length (filter isPromptEvent (trace reviewedContext)))"
    by (simp_all add: example_defs)
  show ?thesis
    using decline_downgrades_to_noop [of childSelectArgs reviewedContext "''feature''"]
      decline_downgrades_to_noop [of featureUpdateOnlyArgs reviewedContext "''main''"]
    by (simp add: t1 t2 p1 p2 s1 s2 tty u)
qed

text \<open>
  Claim C7 as stated fails when the output is no terminal: the declined prompt is followed
  by the cursor calls, which throw, so \<^verbatim>\<open>getPRAction\<close> ends in \<open>TypeError\<close> instead of
  settling on NOOP, and logs nothing.
\<close>

theorem decline_counterexample:
  "pa_select childSelectArgs \<and>
   tableAction childSelectArgs pipedContext ''feature'' = RESTACK \<and>
   userAnswers pipedContext (length (filter isPromptEvent (trace pipedContext))) = False \<and>
   getPRAction childSelectArgs pipedContext =
     (Inl TypeError, emit (EvPrompt ''child'') pipedContext)"
proof -
  have t: "tableAction childSelectArgs pipedContext ''feature'' = RESTACK"
    by (simp add: tableAction_def specActionTable_def example_defs)
  have p: "parentNames (metaCache pipedContext) (pa_branchName childSelectArgs) = Some ''feature''"
    by (simp add: example_defs)
  show ?thesis
    by (simp add: getPRAction_eq [OF p] t) (simp add: example_defs)
qed

lemma getPRAction_dryRun:
  assumes "pa_dryRun args"
  shows "\<exists>evs. snd (getPRAction args ctx) = ctx\<lparr>trace := trace ctx @ evs\<rparr> \<and>
           filter isUpsertEvent evs = [] \<and>
           (fst (getPRAction args ctx) = Inr None \<or> (\<exists>e. fst (getPRAction args ctx) = Inl e)) \<and>
           (parentNames (metaCache ctx) (pa_branchName args) \<noteq> None \<and>
            (pa_select args \<longrightarrow> stdoutIsTTY ctx) \<longrightarrow> fst (getPRAction args ctx) = Inr None)"
proof (cases "parentNames (metaCache ctx) (pa_branchName args)")
  case None
  have "ctx = ctx\<lparr>trace := trace ctx @ []\<rparr>" by simp
  then show ?thesis
    using None by (intro exI [of _ "[]"]) (simp add: getPRAction_no_parent)
next
  case (Some p)
  let ?b = "pa_branchName args"
  let ?t = "tableAction args ctx p"
  have none: "submissionActionFor args ctx st = None" for st
    using assms by (simp add: submissionActionFor_def)
  consider (direct) "\<not> pa_select args \<or> ?t = NOOP"
    | (piped) "pa_select args" "?t \<noteq> NOOP" "\<not> stdoutIsTTY ctx"
    | (asked) "pa_select args" "?t \<noteq> NOOP" "stdoutIsTTY ctx"
    by blast
  then show ?thesis
  proof cases
    case direct
    then show ?thesis
      using Some
      by (intro exI [of _ "[EvInfoStatus ?t ?b]"])
        (simp add: getPRAction_eq [OF Some] none emit_def isUpsertEvent_def)
  next
    case piped
    then show ?thesis
      using Some
      by (intro exI [of _ "[EvPrompt ?b]"])
        (simp add: getPRAction_eq [OF Some] emit_def isUpsertEvent_def)
  next
    case asked
    let ?st = "if userAnswers ctx (length (filter isPromptEvent (trace ctx))) then ?t else NOOP"
    show ?thesis
      using Some asked
      by (intro exI [of _ "[EvPrompt ?b, EvMoveCursor 0 (- 1), EvClearLine 1, EvInfoStatus ?st ?b]"])
        (simp add: getPRAction_eq [OF Some] none isUpsertEvent_def)
  qed
qed

lemma collectPRActions_dryRun:
  assumes "sb_dryRun args"
  shows "\<exists>evs. snd (collectPRActions args bs acc ctx) = ctx\<lparr>trace := trace ctx @ evs\<rparr> \<and>
           filter isUpsertEvent evs = [] \<and>
           (fst (collectPRActions args bs acc ctx) = Inr acc \<or>
            (\<exists>e. fst (collectPRActions args bs acc ctx) = Inl e)) \<and>
           ((\<forall>b\<in>set bs. parentNames (metaCache ctx) b \<noteq> None) \<and>
            (sb_select args \<longrightarrow> stdoutIsTTY ctx) \<longrightarrow>
              fst (collectPRActions args bs acc ctx) = Inr acc)"
proof (induction bs arbitrary: ctx)
  case Nil
  have "ctx = ctx\<lparr>trace := trace ctx @ []\<rparr>" by simp
  then show ?case by (intro exI [of _ "[]"]) simp
next
  case (Cons b bs)
  let ?a = "actionArgsFor args b"
  have dry: "pa_dryRun ?a"
    using assms by (simp add: actionArgsFor_def)
  have nm: "pa_branchName ?a = b" and sel: "pa_select ?a = sb_select args"
    by (simp_all add: actionArgsFor_def)
  obtain evs where evs:
    "snd (getPRAction ?a ctx) = ctx\<lparr>trace := trace ctx @ evs\<rparr>"
    "filter isUpsertEvent evs = []"
    "fst (getPRAction ?a ctx) = Inr None \<or> (\<exists>e. fst (getPRAction ?a ctx) = Inl e)"
    "parentNames (metaCache ctx) b \<noteq> None \<and> (sb_select args \<longrightarrow> stdoutIsTTY ctx) \<longrightarrow>
       fst (getPRAction ?a ctx) = Inr None"
    using getPRAction_dryRun [OF dry, of ctx] unfolding nm sel by blast
  let ?ctx' = "ctx\<lparr>trace := trace ctx @ evs\<rparr>"
  from evs(3) show ?case
  proof
    assume ok: "fst (getPRAction ?a ctx) = Inr None"
    then have step: "collectPRActions args (b # bs) acc ctx = collectPRActions args bs acc ?ctx'"
      using evs(1) by (cases "getPRAction ?a ctx") simp
    obtain evs' where evs':
      "snd (collectPRActions args bs acc ?ctx') = ?ctx'\<lparr>trace := trace ?ctx' @ evs'\<rparr>"
      "filter isUpsertEvent evs' = []"
      "fst (collectPRActions args bs acc ?ctx') = Inr acc \<or>
       (\<exists>e. fst (collectPRActions args bs acc ?ctx') = Inl e)"
      "(\<forall>b\<in>set bs. parentNames (metaCache ?ctx') b \<noteq> None) \<and>
       (sb_select args \<longrightarrow> stdoutIsTTY ?ctx') \<longrightarrow>
         fst (collectPRActions args bs acc ?ctx') = Inr acc"
      using Cons.IH [of ?ctx'] by blast
    have "snd (collectPRActions args (b # bs) acc ctx) = ctx\<lparr>trace := trace ctx @ (evs @ evs')\<rparr>"
      using step evs'(1) by simp
    moreover have "filter isUpsertEvent (evs @ evs') = []"
      using evs(2) evs'(2) by simp
    moreover have "fst (collectPRActions args (b # bs) acc ctx) = Inr acc \<or>
        (\<exists>e. fst (collectPRActions args (b # bs) acc ctx) = Inl e)"
      using step evs'(3) by simp
    moreover have "(\<forall>b\<in>set (b # bs). parentNames (metaCache ctx) b \<noteq> None) \<and>
        (sb_select args \<longrightarrow> stdoutIsTTY ctx) \<longrightarrow>
          fst (collectPRActions args (b # bs) acc ctx) = Inr acc"
      using step evs'(4) by simp
    ultimately show ?thesis by blast
  next
    assume "\<exists>e. fst (getPRAction ?a ctx) = Inl e"
    then obtain e where e: "fst (getPRAction ?a ctx) = Inl e" by blast
    then have stop: "collectPRActions args (b # bs) acc ctx = (Inl e, ?ctx')"
      using evs(1) by (cases "getPRAction ?a ctx") simp
    have "\<not> (parentNames (metaCache ctx) b \<noteq> None \<and> (sb_select args \<longrightarrow> stdoutIsTTY ctx))"
      using evs(4) e by auto
    then have "\<not> ((\<forall>b\<in>set (b # bs). parentNames (metaCache ctx) b \<noteq> None) \<and>
        (sb_select args \<longrightarrow> stdoutIsTTY ctx))"
      by auto
    then show ?thesis
      using stop evs(2) by (intro exI [of _ evs]) auto
  qed
qed

text \<open>
  Claim C10, as the code has it: with \<open>dryRun\<close> set, \<^verbatim>\<open>getPRInfoForBranches\<close> leaves the
  metadata cache as it was, never calls \<^verbatim>\<open>upsertPrInfo\<close> and never consults the helpers
  that gather creation info (its result does not depend on them), whatever the other
  flags; it returns the empty plan when every branch has a parent and, in case interactive
  selection is on, the output is a terminal.
\<close>

theorem dryRun_gives_empty_plan:
  "sb_dryRun args \<longrightarrow>
     metaCache (snd (getPRInfoForBranches deps args ctx)) = metaCache ctx \<and>
     filter isUpsertEvent (newEvents ctx (snd (getPRInfoForBranches deps args ctx))) = [] \<and>
     getPRInfoForBranches deps args ctx = getPRInfoForBranches deps' args ctx \<and>
     ((\<forall>b\<in>set (sb_branchNames args). parentNames (metaCache ctx) b \<noteq> None) \<and>
      (sb_select args \<longrightarrow> stdoutIsTTY ctx) \<longrightarrow>
        fst (getPRInfoForBranches deps args ctx) = Inr [])"
proof
  assume dry: "sb_dryRun args"
  let ?good = "(\<forall>b\<in>set (sb_branchNames args). parentNames (metaCache ctx) b \<noteq> None) \<and>
      (sb_select args \<longrightarrow> stdoutIsTTY ctx)"
  obtain evs where evs:
    "snd (collectPRActions args (sb_branchNames args) [] ctx) = ctx\<lparr>trace := trace ctx @ evs\<rparr>"
    "filter isUpsertEvent evs = []"
    "fst (collectPRActions args (sb_branchNames args) [] ctx) = Inr [] \<or>
     (\<exists>e. fst (collectPRActions args (sb_branchNames args) [] ctx) = Inl e)"
    "?good \<longrightarrow> fst (collectPRActions args (sb_branchNames args) [] ctx) = Inr []"
    using collectPRActions_dryRun [OF dry, of "sb_branchNames args" "[]" ctx] by blast
  let ?ctx' = "ctx\<lparr>trace := trace ctx @ evs\<rparr>"
  have run: "getPRInfoForBranches d args ctx =
      (case fst (collectPRActions args (sb_branchNames args) [] ctx) of
         Inl e \<Rightarrow> (Inl e, ?ctx')
       | Inr _ \<Rightarrow> (Inr [], ?ctx'\<lparr>trace := trace ctx @ evs @ [EvNewline]\<rparr>))" for d
    using evs(1,3)
    by (cases "collectPRActions args (sb_branchNames args) [] ctx")
      (auto simp: getPRInfoForBranches_def andThen_def splog_newline_def done_with_def emit_def)
  have c1: "metaCache (snd (getPRInfoForBranches deps args ctx)) = metaCache ctx"
    by (simp add: run split: sum.splits)
  have c2: "filter isUpsertEvent (newEvents ctx (snd (getPRInfoForBranches deps args ctx))) = []"
    using evs(2) by (simp add: run newEvents_def isUpsertEvent_def split: sum.splits)
  have c3: "getPRInfoForBranches deps args ctx = getPRInfoForBranches deps' args ctx"
    by (simp add: run)
  have c4: "?good \<longrightarrow> fst (getPRInfoForBranches deps args ctx) = Inr []"
    using evs(4) by (simp add: run)
  show "metaCache (snd (getPRInfoForBranches deps args ctx)) = metaCache ctx \<and>
     filter isUpsertEvent (newEvents ctx (snd (getPRInfoForBranches deps args ctx))) = [] \<and>
     getPRInfoForBranches deps args ctx = getPRInfoForBranches deps' args ctx \<and>
     (?good \<longrightarrow> fst (getPRInfoForBranches deps args ctx) = Inr [])"
    using c1 c2 c3 c4 by (intro conjI)
qed

theorem dryRun_gives_empty_plan_witness:
  "sb_dryRun dryRunSelectArgs \<and>
   sb_select dryRunSelectArgs \<and>
   stdoutIsTTY reviewedContext \<and>
   sb_branchNames dryRunSelectArgs = [''feature'', ''child''] \<and>
   parentNames (metaCache reviewedContext) ''feature'' = Some ''main'' \<and>
   parentNames (metaCache reviewedContext) ''child'' = Some ''feature'' \<and>
   fst (getPRInfoForBranches exampleDeps dryRunSelectArgs reviewedContext) = Inr [] \<and>
   metaCache (snd (getPRInfoForBranches exampleDeps dryRunSelectArgs reviewedContext)) =
     metaCache reviewedContext"
proof -
  have d: "sb_dryRun dryRunSelectArgs" and sl: "sb_select dryRunSelectArgs"
    and tty: "stdoutIsTTY reviewedContext"
    and p: "\<forall>b\<in>set (sb_branchNames dryRunSelectArgs).
              parentNames (metaCache reviewedContext) b \<noteq> None"
    by (simp_all add: example_defs)
  show ?thesis
    using dryRun_gives_empty_plan
      [of dryRunSelectArgs exampleDeps reviewedContext exampleDeps] d sl tty p
    by (simp add: example_defs)
qed

text \<open>
  Claim C10 as stated fails for a dry run with interactive selection on and an output that
  is no terminal: the first branch with a pending action is prompted for, the cursor calls
  throw, and no plan is returned.
\<close>

theorem dryRun_counterexample:
  "sb_dryRun dryRunSelectArgs \<and>
   fst (getPRInfoForBranches exampleDeps dryRunSelectArgs pipedContext) = Inl TypeError"
proof -
  have p: "parentNames (metaCache pipedContext)
      (pa_branchName (actionArgsFor dryRunSelectArgs ''feature'')) = Some ''main''"
    by (simp add: example_defs actionArgsFor_def)
  have t: "tableAction (actionArgsFor dryRunSelectArgs ''feature'') pipedContext ''main'' = CREATE"
    by (simp add: tableAction_def specActionTable_def example_defs actionArgsFor_def)
  have a: "getPRAction (actionArgsFor dryRunSelectArgs ''feature'') pipedContext =
      (Inl TypeError, emit (EvPrompt ''feature'') pipedContext)"
    by (simp add: getPRAction_eq [OF p] t) (simp add: example_defs actionArgsFor_def)
  have n: "sb_branchNames dryRunSelectArgs = [''feature'', ''child'']"
    and d: "sb_dryRun dryRunSelectArgs"
    by (simp_all add: example_defs)
  show ?thesis
    by (simp add: getPRInfoForBranches_def andThen_def n a d)
qed

lemma gatherCreationInfo_snd:
  "snd (gatherCreationInfo deps args ctx) =
     upsertPrInfo (ci_branchName args) (snd (gatherTitleAndBody deps args ctx)) ctx"
  by (simp add: gatherCreationInfo_def Let_def split: prod.splits option.splits sum.splits)

lemma creationHeader_snd:
  assumes "fst (creationHeader args ctx) = Inr ()"
  shows "\<exists>evs. snd (creationHeader args ctx) = ctx\<lparr>trace := trace ctx @ evs\<rparr> \<and>
           filter isUpsertEvent evs = []"
proof (cases "ci_editPRFieldsInline args")
  case False
  have "ctx = ctx\<lparr>trace := trace ctx @ []\<rparr>" by simp
  then show ?thesis
    using False by (intro exI [of _ "[]"]) (simp add: creationHeader_def when_do_def done_with_def)
next
  case True
  then obtain p where p: "parentNames (metaCache ctx) (ci_branchName args) = Some p"
    using assms
    by (auto simp: creationHeader_def when_do_def andThen_def splog_newline_def
        getParentPrecondition_def emit_def split: option.splits)
  have "snd (creationHeader args ctx) =
      ctx\<lparr>trace := trace ctx @ [EvNewline, EvInfoHeader (ci_branchName args) p]\<rparr>"
    using True p
    by (simp add: creationHeader_def when_do_def andThen_def splog_newline_def
        getParentPrecondition_def splog_info_def emit_def)
  then show ?thesis by (intro exI [of _ "[EvNewline, EvInfoHeader (ci_branchName args) p]"])
      (simp add: isUpsertEvent_def)
qed

lemma getPRCreationInfo_snd:
  assumes "fst (creationHeader args ctx) = Inr ()"
  shows "snd (getPRCreationInfo deps args ctx) =
     upsertPrInfo (ci_branchName args)
       (snd (gatherTitleAndBody deps args (snd (creationHeader args ctx))))
       (snd (creationHeader args ctx))"
  using assms
  by (cases "creationHeader args ctx")
    (simp add: getPRCreationInfo_def andThen_def gatherCreationInfo_snd)

lemma upsertPrInfo_title:
  "title info = Some t \<Longrightarrow> Option.bind (getPrInfo b (upsertPrInfo b info ctx)) title = Some t"
  by (simp add: upsertPrInfo_def getPrInfo_def mergePrInfo_def emit_def)

lemma upsertPrInfo_body:
  "body info = Some t \<Longrightarrow> Option.bind (getPrInfo b (upsertPrInfo b info ctx)) body = Some t"
  by (simp add: upsertPrInfo_def getPrInfo_def mergePrInfo_def emit_def)

lemma upsertPrInfo_trace:
  "trace (upsertPrInfo b info ctx) = trace ctx @ [EvUpsertPrInfo b info]"
  by (simp add: upsertPrInfo_def emit_def)

lemma gatherTitleAndBody_title:
  "getPRTitle deps (ci_branchName args) (ci_editPRFieldsInline args) ctx = Inr t \<Longrightarrow>
   title (snd (gatherTitleAndBody deps args ctx)) = Some t"
  by (simp add: gatherTitleAndBody_def emptyPrInfo_def split: sum.splits)

lemma gatherTitleAndBody_body:
  "getPRTitle deps (ci_branchName args) (ci_editPRFieldsInline args) ctx = Inr t \<Longrightarrow>
   getPRBody deps (ci_branchName args) (ci_editPRFieldsInline args) ctx = Inr bd \<Longrightarrow>
   body (snd (gatherTitleAndBody deps args ctx)) = Some bd"
  by (simp add: gatherTitleAndBody_def emptyPrInfo_def)

text \<open>
  Claim C3: once \<^verbatim>\<open>getPRCreationInfo\<close> is past its header lines, every way out of it,
  normal or by an error thrown while obtaining the title or the body or in a later step,
  goes through exactly one \<^verbatim>\<open>upsertPrInfo\<close> call carrying the title and body obtained
  so far; afterwards a title that was obtained, and a body that was obtained, are what
  the store returns for the branch.
\<close>

theorem title_body_saved_on_every_exit:
  "fst (creationHeader args ctx) = Inr () \<longrightarrow>
     (let ctx1 = snd (creationHeader args ctx);
          b = ci_branchName args;
          inline = ci_editPRFieldsInline args;
          ctx' = snd (getPRCreationInfo deps args ctx)
      in filter isUpsertEvent (newEvents ctx ctx') =
           [EvUpsertPrInfo b (snd (gatherTitleAndBody deps args ctx1))] \<and>
         (\<forall>t. getPRTitle deps b inline ctx1 = Inr t \<longrightarrow>
               Option.bind (getPrInfo b ctx') title = Some t) \<and>
         (\<forall>t bd. getPRTitle deps b inline ctx1 = Inr t \<and> getPRBody deps b inline ctx1 = Inr bd \<longrightarrow>
               Option.bind (getPrInfo b ctx') body = Some bd))"
proof
  assume ok: "fst (creationHeader args ctx) = Inr ()"
  obtain evs where evs:
    "snd (creationHeader args ctx) = ctx\<lparr>trace := trace ctx @ evs\<rparr>"
    "filter isUpsertEvent evs = []"
    using creationHeader_snd [OF ok] by blast
  let ?ctx1 = "snd (creationHeader args ctx)"
  let ?info = "snd (gatherTitleAndBody deps args ?ctx1)"
  have final: "snd (getPRCreationInfo deps args ctx) =
      upsertPrInfo (ci_branchName args) ?info ?ctx1"
    by (rule getPRCreationInfo_snd [OF ok])
  have "trace (snd (getPRCreationInfo deps args ctx)) =
      trace ctx @ evs @ [EvUpsertPrInfo (ci_branchName args) ?info]"
    unfolding final upsertPrInfo_trace by (simp add: evs(1))
  then have events: "filter isUpsertEvent (newEvents ctx (snd (getPRCreationInfo deps args ctx))) =
      [EvUpsertPrInfo (ci_branchName args) ?info]"
    using evs(2) by (simp add: newEvents_def isUpsertEvent_def)
  show "let ctx1 = snd (creationHeader args ctx);
          b = ci_branchName args;
          inline = ci_editPRFieldsInline args;
          ctx' = snd (getPRCreationInfo deps args ctx)
      in filter isUpsertEvent (newEvents ctx ctx') =
           [EvUpsertPrInfo b (snd (gatherTitleAndBody deps args ctx1))] \<and>
         (\<forall>t. getPRTitle deps b inline ctx1 = Inr t \<longrightarrow>
               Option.bind (getPrInfo b ctx') title = Some t) \<and>
         (\<forall>t bd. getPRTitle deps b inline ctx1 = Inr t \<and> getPRBody deps b inline ctx1 = Inr bd \<longrightarrow>
               Option.bind (getPrInfo b ctx') body = Some bd)"
    unfolding Let_def
    using events
    by (auto simp only: final intro: upsertPrInfo_title upsertPrInfo_body
        gatherTitleAndBody_title gatherTitleAndBody_body)
qed

theorem title_body_saved_on_every_exit_witness:
  "fst (creationHeader exampleCreationArgs exampleContext) = Inr () \<and>
   fst (getPRCreationInfo exampleDeps exampleCreationArgs exampleContext) = Inl Killed \<and>
   Option.bind
     (getPrInfo ''feature'' (snd (getPRCreationInfo exampleDeps exampleCreationArgs exampleContext)))
     title = Some ''Add parser''"
  using title_body_saved_on_every_exit [of exampleCreationArgs exampleContext exampleDeps]
  by (simp add: example_defs exampleDeps_def exampleCreationArgs_def
      getPRCreationInfo_def creationHeader_def gatherCreationInfo_def
      gatherTitleAndBody_def upsertPrInfo_def mergePrInfo_def emptyPrInfo_def getPrInfo_def
      getParentPrecondition_def splog_newline_def splog_info_def
      andThen_def when_do_def done_with_def emit_def Let_def)

section \<open>Properties of the stack builder\<close>

text \<open>
  The loop of \<^verbatim>\<open>upstackInclusiveFromBranchWithParents\<close> never throws: its only
  \<^verbatim>\<open>throw\<close> guards a \<^verbatim>\<open>pop\<close> from an array the loop condition has just found
  non-empty.
\<close>

lemma searchSourceNode_never_throws:
  assumes "searchSourceNode stack b nodes = Some r"
  shows "\<exists>stack'. r = Inr stack'"
  by (rule searchSourceNode.raw_induct
        [where P = "\<lambda>_ _ _ r. \<exists>stack'. r = Inr stack'", OF _ assms])
    (auto simp: array_pop_def split: if_splits)

text \<open>
  Claim C2 fails on the code: when the search does not find the branch in its full stack,
  \<^verbatim>\<open>upstackInclusiveFromBranchWithParents\<close> returns the full stack as it is, source
  unchanged, and signals nothing.
\<close>

theorem missing_branch_returns_silently:
  "upstackInclusiveFromBranchWithParents orphanBuilder (Branch ''feature'') = Some (Inr orphanStack)"
  by (simp add: upstackInclusiveFromBranchWithParents_def orphanBuilder_def orphanStack_def
      searchSourceNode.simps array_pop_def)

text \<open>
  The same for every builder and branch: whatever the full stack, the operation never
  ends in an error.
\<close>

lemma upstackInclusiveFromBranchWithParents_never_throws:
  "upstackInclusiveFromBranchWithParents sb b \<noteq> Some (Inl e)"
  using searchSourceNode_never_throws
  by (fastforce simp: upstackInclusiveFromBranchWithParents_def split: option.splits)

text \<open>
  With the builder over the branch metadata the fault arises for a branch that claims a
  base that does not derive it: the untracked branch \<open>ghost\<close> gets the stack of \<open>f1\<close>,
  with \<open>f1\<close> as its source.
\<close>

lemma untracked_branch_returns_silently:
  "upstackInclusiveFromBranchWithParents (metaBuilder exEnv ghostParentName) (Branch ''ghost'') =
     Some (Inr (exStacks ! 0))"
  by (simp add: upstackInclusiveFromBranchWithParents_def metaBuilder_def metaBuilderBase_def
      metaGetStackBaseBranch.simps isRootName_def exEnv_def exParentName_def ghostParentName_def
      upstackInclusiveFromBranchWithoutParents_def expandLoop.simps expandStep_def
      expandNode_def array_pop_def metaGetChildrenForBranch_def sourceNode_def Let_def
      searchSourceNode.simps exStacks_def)

subsection \<open>The expansion loop\<close>

lemma expandNode_length:
  "length (fst (expandNode gc st cur)) = length st + length (gc (branch (st ! cur)))"
  by (simp add: expandNode_def Let_def)

lemma expandNode_fresh:
  "snd (expandNode gc st cur) = [length st ..< length st + length (gc (branch (st ! cur)))]"
  by (simp add: expandNode_def Let_def)

lemma expandNode_nth_old:
  assumes "a < length st" "cur < length st"
  shows "fst (expandNode gc st cur) ! a =
     (if a = cur then (st ! cur)\<lparr>children := snd (expandNode gc st cur)\<rparr> else st ! a)"
  using assms by (simp add: expandNode_def Let_def nth_append nth_list_update)

lemma expandNode_nth_new:
  assumes "i < length (gc (branch (st ! cur)))" "cur < length st"
  shows "fst (expandNode gc st cur) ! (length st + i) =
     \<lparr>branch = gc (branch (st ! cur)) ! i, parents = [cur], children = []\<rparr>"
  using assms by (simp add: expandNode_def Let_def nth_append nth_list_update)

lemma expandNode_branch_old:
  assumes "a < length st" "cur < length st"
  shows "branch (fst (expandNode gc st cur) ! a) = branch (st ! a)"
  using assms by (simp add: expandNode_nth_old)

lemma expandNode_parents_old:
  assumes "a < length st" "cur < length st"
  shows "parents (fst (expandNode gc st cur) ! a) = parents (st ! a)"
  using assms by (simp add: expandNode_nth_old)

lemma expandNode_fresh_branches:
  assumes "cur < length st"
  shows "map (\<lambda>c. branch (fst (expandNode gc st cur) ! c)) (snd (expandNode gc st cur)) =
     gc (branch (st ! cur))"
proof (rule nth_equalityI)
  show "length (map (\<lambda>c. branch (fst (expandNode gc st cur) ! c)) (snd (expandNode gc st cur))) =
      length (gc (branch (st ! cur)))"
    by (simp add: expandNode_fresh)
next
  fix i
  assume "i < length (map (\<lambda>c. branch (fst (expandNode gc st cur) ! c)) (snd (expandNode gc st cur)))"
  then have i: "i < length (gc (branch (st ! cur)))"
    by (simp add: expandNode_fresh)
  then show "map (\<lambda>c. branch (fst (expandNode gc st cur) ! c)) (snd (expandNode gc st cur)) ! i =
      gc (branch (st ! cur)) ! i"
    using assms expandNode_nth_new [of i gc st cur] by (simp add: expandNode_fresh)
qed

lemma expandStep_eq:
  assumes "nodes \<noteq> []"
  shows "expandStep gc (st, nodes) =
     (fst (expandNode gc st (last nodes)),
      butlast nodes @ snd (expandNode gc st (last nodes)))"
  using assms by (simp add: expandStep_def array_pop_def split: prod.splits)

lemma expandStep_inv:
  assumes inv: "storeInv gc b0 (st, nodes)" and ne: "nodes \<noteq> []"
  shows "storeInv gc b0 (expandStep gc (st, nodes))"
proof -
  define cur where "cur = last nodes"
  define rest where "rest = butlast nodes"
  define kids where "kids = gc (branch (st ! cur))"
  define st' where "st' = fst (expandNode gc st cur)"
  define fresh where "fresh = snd (expandNode gc st cur)"
  have nodes: "nodes = rest @ [cur]"
    using ne by (simp add: cur_def rest_def)
  have st_ne: "st \<noteq> []" and b0: "branch (st ! 0) = b0" and p0: "parents (st ! 0) = []"
    and dist: "distinct nodes"
    and pend: "\<And>a. a \<in> set nodes \<Longrightarrow> a < length st \<and> children (st ! a) = []"
    and expd: "\<And>a. a < length st \<Longrightarrow> a \<notin> set nodes \<Longrightarrow> expandedNode gc st a"
    and par: "\<And>a. a < length st \<Longrightarrow> a \<noteq> 0 \<Longrightarrow>
                \<exists>p<a. branch (st ! a) \<in> set (gc (branch (st ! p)))"
    using inv by (auto simp: storeInv_def)
  have cur: "cur < length st"
    using pend [of cur] nodes by simp
  have cur_rest: "cur \<notin> set rest" and dist_rest: "distinct rest"
    using dist nodes by auto
  have rest_lt: "\<And>a. a \<in> set rest \<Longrightarrow> a < length st"
    using pend nodes by auto
  have len': "length st' = length st + length kids"
    by (simp add: st'_def kids_def expandNode_length)
  have fresh: "fresh = [length st ..< length st + length kids]"
    by (simp add: fresh_def kids_def expandNode_fresh)
  have old: "\<And>a. a < length st \<Longrightarrow>
      st' ! a = (if a = cur then (st ! cur)\<lparr>children := fresh\<rparr> else st ! a)"
    using cur by (simp add: st'_def fresh_def expandNode_nth_old)
  have new: "\<And>i. i < length kids \<Longrightarrow>
      st' ! (length st + i) = \<lparr>branch = kids ! i, parents = [cur], children = []\<rparr>"
    using cur by (simp add: st'_def kids_def expandNode_nth_new)
  have br_old: "\<And>a. a < length st \<Longrightarrow> branch (st' ! a) = branch (st ! a)"
    by (simp add: old)
  have pa_old: "\<And>a. a < length st \<Longrightarrow> parents (st' ! a) = parents (st ! a)"
    by (simp add: old)
  have fresh_br: "map (\<lambda>c. branch (st' ! c)) fresh = kids"
    using cur by (simp add: st'_def fresh_def kids_def expandNode_fresh_branches)
  have new_at: "\<And>c. c \<in> set fresh \<Longrightarrow>
      c < length st' \<and> parents (st' ! c) = [cur] \<and> children (st' ! c) = [] \<and>
      branch (st' ! c) \<in> set kids"
  proof -
    fix c assume "c \<in> set fresh"
    then obtain i where i: "i < length kids" "c = length st + i"
      using fresh by (auto simp: le_iff_add)
    show "c < length st' \<and> parents (st' ! c) = [cur] \<and> children (st' ! c) = [] \<and>
      branch (st' ! c) \<in> set kids"
      using i new [of i] len' by simp
  qed
  have step: "expandStep gc (st, nodes) = (st', rest @ fresh)"
    using ne by (simp add: expandStep_eq st'_def fresh_def cur_def rest_def)
  have c1: "st' \<noteq> []"
    using st_ne len' by (cases st') auto
  have zero: "0 < length st"
    using st_ne by simp
  have c2: "branch (st' ! 0) = b0"
    using br_old [OF zero] b0 by simp
  have c3: "parents (st' ! 0) = []"
    using pa_old [OF zero] p0 by simp
  have c4: "distinct (rest @ fresh)"
    using dist_rest fresh by (auto dest: rest_lt)
  have c5: "\<forall>a\<in>set (rest @ fresh). a < length st' \<and> children (st' ! a) = []"
  proof
    fix a assume a: "a \<in> set (rest @ fresh)"
    show "a < length st' \<and> children (st' ! a) = []"
    proof (cases "a \<in> set rest")
      case True
      then have "a < length st" "a \<noteq> cur" "children (st ! a) = []"
        using rest_lt cur_rest pend [of a] nodes by auto
      then show ?thesis using old [of a] len' by simp
    next
      case False
      then have "a \<in> set fresh" using a by simp
      then show ?thesis using new_at by blast
    qed
  qed
  have c6: "\<forall>a<length st'. a \<notin> set (rest @ fresh) \<longrightarrow> expandedNode gc st' a"
  proof (intro allI impI)
    fix a assume a: "a < length st'" and notin: "a \<notin> set (rest @ fresh)"
    have a_lt: "a < length st"
      using a notin fresh len' by auto
    show "expandedNode gc st' a"
    proof (cases "a = cur")
      case True
      have "children (st' ! a) = fresh" "branch (st' ! a) = branch (st ! cur)"
        using True old [of a] cur by simp_all
      then show ?thesis
        using fresh_br new_at True
        by (simp add: expandedNode_def kids_def list_all_iff)
    next
      case False
      then have "a \<notin> set nodes" using notin nodes by simp
      then have ex: "expandedNode gc st a" using expd [OF a_lt] by simp
      have same: "st' ! a = st ! a" using old [OF a_lt] False by simp
      have kids_ok: "\<And>c. c \<in> set (children (st ! a)) \<Longrightarrow>
          c < length st \<and> parents (st ! c) = [a]"
        using ex by (simp add: expandedNode_def list_all_iff)
      have "map (\<lambda>c. branch (st' ! c)) (children (st ! a)) =
          map (\<lambda>c. branch (st ! c)) (children (st ! a))"
        by (rule map_cong) (use kids_ok br_old in auto)
      also have "\<dots> = gc (branch (st ! a))"
        using ex by (simp add: expandedNode_def)
      finally have m: "map (\<lambda>c. branch (st' ! c)) (children (st ! a)) = gc (branch (st ! a))" .
      have l: "list_all (\<lambda>c. c < length st' \<and> parents (st' ! c) = [a]) (children (st ! a))"
        unfolding list_all_iff using kids_ok pa_old len' by fastforce
      show ?thesis
        unfolding expandedNode_def same using m l by (rule conjI)
    qed
  qed
  have c7: "\<forall>a<length st'. a \<noteq> 0 \<longrightarrow>
      (\<exists>p<a. branch (st' ! a) \<in> set (gc (branch (st' ! p))))"
  proof (intro allI impI)
    fix a assume a: "a < length st'" and nz: "a \<noteq> 0"
    show "\<exists>p<a. branch (st' ! a) \<in> set (gc (branch (st' ! p)))"
    proof (cases "a < length st")
      case True
      then obtain p where p: "p < a" "branch (st ! a) \<in> set (gc (branch (st ! p)))"
        using par [OF True nz] by blast
      then have "branch (st' ! a) \<in> set (gc (branch (st' ! p)))"
        using br_old [of a] br_old [of p] True by simp
      then show ?thesis using p(1) by blast
    next
      case False
      then have "a \<in> set fresh" using a fresh len' by auto
      then have "branch (st' ! a) \<in> set kids" using new_at by blast
      then have "branch (st' ! a) \<in> set (gc (branch (st' ! cur)))"
        using br_old [OF cur] by (simp add: kids_def)
      moreover have "cur < a" using False cur by simp
      ultimately show ?thesis by blast
    qed
  qed
  show ?thesis
    unfolding step storeInv_def using c1 c2 c3 c4 c5 c6 c7 by simp
qed

lemma expandStep_decreases:
  assumes inv: "storeInv gc b0 (st, nodes)" and ne: "nodes \<noteq> []"
  shows "(pendingBranches (expandStep gc (st, nodes)), pendingBranches (st, nodes))
           \<in> mult (childRel gc)"
proof -
  define cur where "cur = last nodes"
  define rest where "rest = butlast nodes"
  have nodes: "nodes = rest @ [cur]"
    using ne by (simp add: cur_def rest_def)
  have pend: "\<And>a. a \<in> set nodes \<Longrightarrow> a < length st"
    using inv by (auto simp: storeInv_def)
  have cur: "cur < length st" using pend [of cur] nodes by simp
  have rest_lt: "\<And>a. a \<in> set rest \<Longrightarrow> a < length st" using pend nodes by auto
  have "image_mset (\<lambda>a. branch (fst (expandNode gc st cur) ! a)) (mset rest) =
      image_mset (\<lambda>a. branch (st ! a)) (mset rest)"
    using rest_lt cur by (intro image_mset_cong) (auto simp: expandNode_branch_old)
  moreover have "mset (map (\<lambda>a. branch (fst (expandNode gc st cur) ! a))
      (snd (expandNode gc st cur))) = mset (gc (branch (st ! cur)))"
    using cur by (simp only: expandNode_fresh_branches)
  moreover have "expandStep gc (st, nodes) =
      (fst (expandNode gc st cur), rest @ snd (expandNode gc st cur))"
    using ne by (simp add: expandStep_eq cur_def rest_def)
  ultimately have new: "pendingBranches (expandStep gc (st, nodes)) =
      mset (map (\<lambda>a. branch (st ! a)) rest) + mset (gc (branch (st ! cur)))"
    by (simp add: pendingBranches_def)
  have old: "pendingBranches (st, nodes) =
      mset (map (\<lambda>a. branch (st ! a)) rest) + {#branch (st ! cur)#}"
    by (simp add: pendingBranches_def nodes)
  show ?thesis
    unfolding new old
    by (rule one_step_implies_mult) (auto simp: childRel_def)
qed

lemma storeInv_initial: "storeInv gc b ([sourceNode b], [0])"
  by (simp add: storeInv_def sourceNode_def)

lemma expandLoop_total:
  assumes wf: "wf (childRel gc)"
  shows "storeInv gc b0 s \<Longrightarrow> snd s \<noteq> [] \<Longrightarrow>
           \<exists>st'. expandLoop gc s = Some st' \<and> storeInv gc b0 (st', [])"
proof -
  have wfm: "wf (inv_image (mult (childRel gc)) pendingBranches)"
    by (intro wf_inv_image wf_mult wf)
  show "storeInv gc b0 s \<Longrightarrow> snd s \<noteq> [] \<Longrightarrow>
           \<exists>st'. expandLoop gc s = Some st' \<and> storeInv gc b0 (st', [])"
  proof (induction s rule: wf_induct_rule [OF wfm])
  case (1 s)
  obtain st nodes where s: "s = (st, nodes)" by (cases s)
  have ne: "nodes \<noteq> []" using "1.prems"(2) s by simp
  let ?s' = "expandStep gc s"
  have inv': "storeInv gc b0 ?s'"
    using expandStep_inv [of gc b0 st nodes] "1.prems"(1) ne s by simp
  have dec: "(?s', s) \<in> inv_image (mult (childRel gc)) pendingBranches"
    using expandStep_decreases [of gc b0 st nodes] "1.prems"(1) ne s by (simp add: inv_image_def)
  have unfold: "expandLoop gc s =
      (if snd ?s' \<noteq> [] then expandLoop gc ?s' else Some (fst ?s'))"
    using ne s by (subst expandLoop.simps) (simp add: array_pop_def Let_def)
  show ?case
  proof (cases "snd ?s' = []")
    case True
    then have "storeInv gc b0 (fst ?s', [])"
      using inv' by (metis prod.collapse)
    then show ?thesis using unfold True by simp
  next
    case False
    then show ?thesis
      using "1.IH" [OF dec inv'] unfold by simp
  qed
qed
qed

lemma storeInv_final_tree:
  assumes "storeInv gc b (st, [])"
  shows "isUpstackTree gc b \<lparr>store = st, source = 0\<rparr>"
  using assms by (simp add: storeInv_def isUpstackTree_def list_all_iff)

text \<open>
  Claim C5, as the code has it: for a finite acyclic branch graph
  \<^verbatim>\<open>upstackInclusiveFromBranchWithoutParents\<close> returns, and the stack it returns has the
  requested branch at its source, with no parents, and every node expanded: its children
  are fresh nodes for exactly the child branches of its branch, each with the node as
  its only parent. The work list is a stack: each iteration expands its last node and
  appends the new children to it (depth first, not breadth first).
\<close>

theorem upstack_without_parents_builds_tree:
  "finite (childRel (getChildrenForBranch sb)) \<and> acyclic (childRel (getChildrenForBranch sb)) \<longrightarrow>
     (\<exists>stack. upstackInclusiveFromBranchWithoutParents sb b = Some stack \<and>
              isUpstackTree (getChildrenForBranch sb) b stack) \<and>
     expandStep (getChildrenForBranch sb) (st, nodes @ [curNode]) =
       (fst (expandNode (getChildrenForBranch sb) st curNode),
        nodes @ snd (expandNode (getChildrenForBranch sb) st curNode))"
proof
  let ?gc = "getChildrenForBranch sb"
  assume "finite (childRel ?gc) \<and> acyclic (childRel ?gc)"
  then have wf: "wf (childRel ?gc)"
    by (simp add: finite_acyclic_wf)
  obtain st' where st': "expandLoop ?gc ([sourceNode b], [0]) = Some st'"
    "storeInv ?gc b (st', [])"
    using expandLoop_total [OF wf storeInv_initial, of b] by auto
  have "upstackInclusiveFromBranchWithoutParents sb b = Some \<lparr>store = st', source = 0\<rparr>"
    by (simp add: upstackInclusiveFromBranchWithoutParents_def st'(1))
  moreover have "isUpstackTree ?gc b \<lparr>store = st', source = 0\<rparr>"
    by (rule storeInv_final_tree [OF st'(2)])
  moreover have "expandStep ?gc (st, nodes @ [curNode]) =
       (fst (expandNode ?gc st curNode), nodes @ snd (expandNode ?gc st curNode))"
    by (simp add: expandStep_eq)
  ultimately show "(\<exists>stack. upstackInclusiveFromBranchWithoutParents sb b = Some stack \<and>
              isUpstackTree ?gc b stack) \<and>
     expandStep ?gc (st, nodes @ [curNode]) =
       (fst (expandNode ?gc st curNode), nodes @ snd (expandNode ?gc st curNode))"
    by blast
qed

lemma exChildren_rel:
  "childRel exChildren =
     {(Branch ''b'', Branch ''a''), (Branch ''c'', Branch ''a''),
      (Branch ''d'', Branch ''b''), (Branch ''e'', Branch ''c'')}"
  by (auto simp: childRel_def exChildren_def split: if_splits) (metis Branch.collapse)+

lemma exChildren_finite: "finite (childRel exChildren)"
  by (simp add: exChildren_rel)

lemma exChildren_acyclic: "acyclic (childRel exChildren)"
proof (rule acyclicI_order [where f = "\<lambda>b. if name b = ''a'' then 0 else
    if name b = ''b'' \<or> name b = ''c'' then 1 else (2::nat)"])
  fix a b assume "(a, b) \<in> childRel exChildren"
  then show "(if name b = ''a'' then 0 else if name b = ''b'' \<or> name b = ''c'' then 1 else (2::nat))
      < (if name a = ''a'' then 0 else if name a = ''b'' \<or> name a = ''c'' then 1 else (2::nat))"
    by (auto simp: exChildren_rel)
qed

lemma exLoop_value:
  "expandLoop exChildren ([sourceNode (Branch ''a'')], [0]) = Some exStoreFinal"
  by (simp add: expandLoop.simps expandStep_def expandNode_def array_pop_def exChildren_def
      sourceNode_def exStoreFinal_def Let_def)

theorem upstack_without_parents_builds_tree_witness:
  "finite (childRel (getChildrenForBranch exBuilder)) \<and>
   acyclic (childRel (getChildrenForBranch exBuilder)) \<and>
   upstackInclusiveFromBranchWithoutParents exBuilder (Branch ''a'') =
     Some \<lparr>store = exStoreFinal, source = 0\<rparr> \<and>
   isUpstackTree exChildren (Branch ''a'') \<lparr>store = exStoreFinal, source = 0\<rparr>"
proof -
  have gc: "getChildrenForBranch exBuilder = exChildren"
    by (simp add: exBuilder_def)
  have fin: "finite (childRel (getChildrenForBranch exBuilder))"
    and acy: "acyclic (childRel (getChildrenForBranch exBuilder))"
    by (simp_all add: gc exChildren_finite exChildren_acyclic)
  have val: "upstackInclusiveFromBranchWithoutParents exBuilder (Branch ''a'') =
      Some \<lparr>store = exStoreFinal, source = 0\<rparr>"
    by (simp add: upstackInclusiveFromBranchWithoutParents_def gc exLoop_value)
  show ?thesis
    using upstack_without_parents_builds_tree [of exBuilder "Branch ''a''" "[]" "[]" 0] fin acy
    by (simp add: val gc)
qed

text \<open>
  Claim C5 as stated fails in its order of expansion: after two iterations on the example
  graph the work list holds the node of \<open>b\<close> (depth 1) and the node of \<open>e\<close> (depth 2), and
  the loop pops the node of \<open>e\<close>.
\<close>

theorem breadth_first_expansion_counterexample:
  "expandStep exChildren (expandStep exChildren ([sourceNode (Branch ''a'')], [0])) =
     (exStoreAfterTwo, [1, 3]) \<and>
   fst (array_pop [1, 3 :: nat]) = Some 3 \<and>
   nodeDepth exStoreAfterTwo 1 = 1 \<and>
   nodeDepth exStoreAfterTwo 3 = 2 \<and>
   \<not> breadthFirstChoice exStoreAfterTwo [1, 3]"
proof -
  have d1: "nodeDepth exStoreAfterTwo 1 = 1"
    by (simp add: nodeDepth.simps exStoreAfterTwo_def)
  have d3: "nodeDepth exStoreAfterTwo 3 = 2"
    by (simp add: nodeDepth.simps exStoreAfterTwo_def)
  have s: "expandStep exChildren (expandStep exChildren ([sourceNode (Branch ''a'')], [0])) =
     (exStoreAfterTwo, [1, 3])"
    by (simp add: expandStep_def expandNode_def array_pop_def exChildren_def
      sourceNode_def exStoreAfterTwo_def Let_def)
  show ?thesis
    using d1 d3 s by (simp add: breadthFirstChoice_def array_pop_def)
qed

subsection \<open>The stacks of the builder over the branch metadata\<close>

lemma metaChildRel:
  "(c, b) \<in> childRel (metaGetChildrenForBranch env par) \<longleftrightarrow>
     c \<in> set (allBranches env) \<and> par (name c) = Some (name b)"
  by (auto simp: childRel_def metaGetChildrenForBranch_def)

lemma metaChildRel_finite: "finite (childRel (metaGetChildrenForBranch env par))"
proof -
  have "childRel (metaGetChildrenForBranch env par) \<subseteq>
      (\<lambda>c. (c, Branch (the (par (name c))))) ` set (allBranches env)"
    by (auto simp: metaChildRel image_iff)
  then show ?thesis by (rule finite_subset) simp
qed

lemma metaChildRel_single_valued: "single_valued (childRel (metaGetChildrenForBranch env par))"
  by (auto simp: single_valued_def metaChildRel intro: Branch.expand)

lemma metaGetStackBaseBranch_total:
  assumes acy: "acyclic (childRel (metaGetChildrenForBranch env par))"
  shows "b \<in> set (allBranches env) \<Longrightarrow>
     \<exists>base. metaGetStackBaseBranch env par b = Some base \<and>
       (b, base) \<in> (childRel (metaGetChildrenForBranch env par))\<^sup>* \<and>
       base \<in> set (allBranches env) \<and> isStackBase env par base \<and>
       (base \<noteq> b \<longrightarrow> \<not> isRootName env (name base))"
proof -
  let ?R = "childRel (metaGetChildrenForBranch env par)"
  have wf: "wf (?R\<inverse>)"
    using acy metaChildRel_finite [of env par] by (intro finite_acyclic_wf) simp_all
  show "b \<in> set (allBranches env) \<Longrightarrow>
     \<exists>base. metaGetStackBaseBranch env par b = Some base \<and> (b, base) \<in> ?R\<^sup>* \<and>
       base \<in> set (allBranches env) \<and> isStackBase env par base \<and>
       (base \<noteq> b \<longrightarrow> \<not> isRootName env (name base))"
  proof (induction b rule: wf_induct_rule [OF wf])
    case (1 b)
    show ?case
    proof (cases "par (name b)")
      case None
      then have "metaGetStackBaseBranch env par b = Some b"
        by (subst metaGetStackBaseBranch.simps) simp
      then show ?thesis using None "1.prems" by (simp add: isStackBase_def)
    next
      case (Some p)
      show ?thesis
      proof (cases "isRootName env p")
        case True
        then have "metaGetStackBaseBranch env par b = Some b"
          using Some by (subst metaGetStackBaseBranch.simps) simp
        then show ?thesis using Some True "1.prems" by (simp add: isStackBase_def)
      next
        case False
        then have step: "metaGetStackBaseBranch env par b =
            metaGetStackBaseBranch env par (Branch p)"
          using Some by (subst metaGetStackBaseBranch.simps) simp
        have tracked: "Branch p \<in> set (allBranches env)"
          using False by (simp add: isRootName_def)
        have edge: "(b, Branch p) \<in> ?R"
          using Some "1.prems" by (simp add: metaChildRel)
        then have "(Branch p, b) \<in> ?R\<inverse>" by simp
        from "1.IH" [OF this tracked] obtain base where base:
          "metaGetStackBaseBranch env par (Branch p) = Some base"
          "(Branch p, base) \<in> ?R\<^sup>*" "base \<in> set (allBranches env)"
          "isStackBase env par base"
          "base \<noteq> Branch p \<longrightarrow> \<not> isRootName env (name base)"
          by blast
        have "\<not> isRootName env (name base)"
          using base(5) False by (cases "base = Branch p") auto
        moreover have "(b, base) \<in> ?R\<^sup>*"
          using edge base(2) by (rule converse_rtrancl_into_rtrancl)
        ultimately show ?thesis using step base(1,3,4) by simp
      qed
    qed
  qed
qed

lemma isStackBase_self:
  assumes "isStackBase env par b"
  shows "metaGetStackBaseBranch env par b = Some b"
  using assms
  by (subst metaGetStackBaseBranch.simps) (simp add: isStackBase_def split: option.splits)

lemma final_store_branches:
  assumes inv: "storeInv gc b0 (st, [])"
  shows "branch ` set st = {c. (c, b0) \<in> (childRel gc)\<^sup>*}"
proof (intro set_eqI iffI)
  fix c assume "c \<in> branch ` set st"
  then obtain a where a: "a < length st" "c = branch (st ! a)"
    by (auto simp: in_set_conv_nth)
  have "a < length st \<Longrightarrow> (branch (st ! a), b0) \<in> (childRel gc)\<^sup>*" for a
  proof (induction a rule: less_induct)
    case (less a)
    show ?case
    proof (cases "a = 0")
      case True
      then show ?thesis using inv by (simp add: storeInv_def)
    next
      case False
      then obtain p where p: "p < a" "branch (st ! a) \<in> set (gc (branch (st ! p)))"
        using inv less.prems by (auto simp: storeInv_def)
      then have "(branch (st ! a), branch (st ! p)) \<in> childRel gc"
        by (simp add: childRel_def)
      moreover have "(branch (st ! p), b0) \<in> (childRel gc)\<^sup>*"
        using less.IH [OF p(1)] p(1) less.prems by simp
      ultimately show ?thesis by (rule converse_rtrancl_into_rtrancl)
    qed
  qed
  then show "c \<in> {c. (c, b0) \<in> (childRel gc)\<^sup>*}" using a by simp
next
  fix c assume "c \<in> {c. (c, b0) \<in> (childRel gc)\<^sup>*}"
  then have "(c, b0) \<in> (childRel gc)\<^sup>*" by simp
  then show "c \<in> branch ` set st"
  proof (induction rule: converse_rtrancl_induct)
    case base
    have "st \<noteq> []" "branch (st ! 0) = b0" using inv by (simp_all add: storeInv_def)
    then show ?case by (metis hd_conv_nth hd_in_set image_eqI)
  next
    case (step y z)
    then obtain a where a: "a < length st" "z = branch (st ! a)"
      by (auto simp: in_set_conv_nth)
    have ex: "expandedNode gc st a"
      using inv a(1) by (simp add: storeInv_def)
    have "y \<in> set (gc z)" using step.hyps(1) by (simp add: childRel_def)
    then have "y \<in> set (map (\<lambda>c. branch (st ! c)) (children (st ! a)))"
      using ex a(2) by (simp add: expandedNode_def)
    then obtain k where k: "k \<in> set (children (st ! a))" "y = branch (st ! k)"
      by auto
    then have "k < length st"
      using ex by (simp add: expandedNode_def list_all_iff)
    then show ?case using k(2) by simp
  qed
qed

lemma allReturned_map:
  assumes "\<And>x. x \<in> set xs \<Longrightarrow> \<exists>y. f x = Some y"
  shows "allReturned (map f xs) = Some (map (\<lambda>x. the (f x)) xs)"
  using assms
proof (induction xs)
  case Nil
  show ?case by simp
next
  case (Cons x xs)
  obtain y where y: "f x = Some y" using Cons.prems [of x] by auto
  have "allReturned (map f xs) = Some (map (\<lambda>x. the (f x)) xs)"
    using Cons.IH Cons.prems by simp
  then show ?case using y by simp
qed

lemma setDedup_set: "set (setDedup xs) = set xs"
  by (simp add: setDedup_def)

lemma setDedup_distinct: "distinct (setDedup xs)"
  by (simp add: setDedup_def)

lemma upstack_branches:
  assumes acy: "acyclic (childRel (metaGetChildrenForBranch env par))"
  shows "\<exists>stack. upstackInclusiveFromBranchWithoutParents (metaBuilderBase env par) x = Some stack \<and>
           stackBranches stack = {c. (c, x) \<in> (childRel (metaGetChildrenForBranch env par))\<^sup>*} \<and>
           source stack = 0 \<and> branch (store stack ! 0) = x"
proof -
  let ?gc = "metaGetChildrenForBranch env par"
  have wf: "wf (childRel ?gc)"
    using acy metaChildRel_finite by (rule finite_acyclic_wf [rotated])
  obtain st where st: "expandLoop ?gc ([sourceNode x], [0]) = Some st" "storeInv ?gc x (st, [])"
    using expandLoop_total [OF wf storeInv_initial, of x] by auto
  have "upstackInclusiveFromBranchWithoutParents (metaBuilderBase env par) x =
      Some \<lparr>store = st, source = 0\<rparr>"
    by (simp add: upstackInclusiveFromBranchWithoutParents_def metaBuilderBase_def st(1))
  moreover have "stackBranches \<lparr>store = st, source = 0\<rparr> = {c. (c, x) \<in> (childRel ?gc)\<^sup>*}"
    using final_store_branches [OF st(2)] by (simp add: stackBranches_def)
  moreover have "branch (st ! 0) = x" using st(2) by (simp add: storeInv_def)
  ultimately show ?thesis by simp
qed

text \<open>
  Claim C6, for the builder over the branch metadata: when the branch graph has no cycle
  and the trunk and the ignored branches are roots, \<^verbatim>\<open>allStackBaseNames\<close> returns
  distinct base branches, \<^verbatim>\<open>allStacksFromTrunk\<close> returns one stack for each, with that
  base at its source; the branches of the stacks together are exactly the tracked
  branches that are neither ignored nor the trunk, and two different stacks share no
  branch.
\<close>

theorem allStacksFromTrunk_partitions:
  "acyclic (childRel (metaGetChildrenForBranch env par)) \<and> rootsHaveNoParent env par \<longrightarrow>
     (\<exists>bases stacks.
        allStackBaseNames env (metaBuilder env par) = Some bases \<and>
        allStacksFromTrunk env (metaBuilder env par) = Some stacks \<and>
        distinct bases \<and> length stacks = length bases \<and>
        (\<forall>i<length stacks. branch (store (stacks ! i) ! source (stacks ! i)) = bases ! i) \<and>
        \<Union> (stackBranches ` set stacks) = trackedBranches env \<and>
        (\<forall>i<length stacks. \<forall>j<length stacks. i \<noteq> j \<longrightarrow>
           stackBranches (stacks ! i) \<inter> stackBranches (stacks ! j) = {}))"
proof
  let ?gc = "metaGetChildrenForBranch env par"
  let ?R = "childRel ?gc"
  let ?sb = "metaBuilder env par"
  let ?base = "\<lambda>b. the (metaGetStackBaseBranch env par b)"
  let ?full = "\<lambda>x. the (fullStackFromBranch ?sb x)"
  assume "acyclic ?R \<and> rootsHaveNoParent env par"
  then have acy: "acyclic ?R" and roots: "rootsHaveNoParent env par" by simp_all
  define cands where "cands =
    filter (\<lambda>b. name b \<notin> set (ignoreBranches env) \<and> name b \<noteq> name (trunk env)) (allBranches env)"
  define bases where "bases = map Branch (setDedup (map (\<lambda>b. name (?base b)) cands))"
  define stacks where "stacks = map ?full bases"
  have tracked: "trackedBranches env = set cands"
    by (simp add: trackedBranches_def cands_def)
  have cand_in: "\<And>b. b \<in> set cands \<Longrightarrow> b \<in> set (allBranches env)"
    by (simp add: cands_def)
  have cand_notroot: "\<And>b. b \<in> set cands \<Longrightarrow> \<not> isRootName env (name b)"
    by (simp add: cands_def isRootName_def)
  have notroot_cand: "\<And>b. b \<in> set (allBranches env) \<Longrightarrow> \<not> isRootName env (name b) \<Longrightarrow>
      b \<in> set cands"
    by (simp add: cands_def isRootName_def)
  have edge_notroot: "\<And>c b. (c, b) \<in> ?R \<Longrightarrow> c \<in> set cands"
  proof -
    fix c b assume "(c, b) \<in> ?R"
    then have c: "c \<in> set (allBranches env)" "par (name c) \<noteq> None"
      by (simp_all add: metaChildRel)
    then have "name c \<noteq> name (trunk env) \<and> name c \<notin> set (ignoreBranches env)"
      using roots by (auto simp: rootsHaveNoParent_def list_all_iff)
    then show "c \<in> set cands" using c(1) by (simp add: cands_def)
  qed
  have base_props: "\<And>b. b \<in> set cands \<Longrightarrow>
      metaGetStackBaseBranch env par b = Some (?base b) \<and> (b, ?base b) \<in> ?R\<^sup>* \<and>
      ?base b \<in> set cands \<and> isStackBase env par (?base b)"
  proof -
    fix b assume b: "b \<in> set cands"
    obtain x where x: "metaGetStackBaseBranch env par b = Some x" "(b, x) \<in> ?R\<^sup>*"
      "x \<in> set (allBranches env)" "isStackBase env par x"
      "x \<noteq> b \<longrightarrow> \<not> isRootName env (name x)"
      using metaGetStackBaseBranch_total [OF acy cand_in [OF b]] by blast
    have "x \<in> set cands"
      using x(3,5) b cand_notroot [OF b] notroot_cand by (cases "x = b") auto
    then show "metaGetStackBaseBranch env par b = Some (?base b) \<and> (b, ?base b) \<in> ?R\<^sup>* \<and>
      ?base b \<in> set cands \<and> isStackBase env par (?base b)"
      using x by simp
  qed
  have names: "allStackBaseNames env ?sb = Some bases"
  proof -
    have "allReturned (map (\<lambda>b. map_option name (metaGetStackBaseBranch env par b)) cands) =
        Some (map (\<lambda>b. the (map_option name (metaGetStackBaseBranch env par b))) cands)"
      by (rule allReturned_map) (use base_props in auto)
    moreover have "map (\<lambda>b. the (map_option name (metaGetStackBaseBranch env par b))) cands =
        map (\<lambda>b. name (?base b)) cands"
    proof (rule map_cong [OF refl])
      fix b assume "b \<in> set cands"
      then have "metaGetStackBaseBranch env par b = Some (?base b)"
        using base_props by blast
      then show "the (map_option name (metaGetStackBaseBranch env par b)) = name (?base b)"
        by (cases "metaGetStackBaseBranch env par b") simp_all
    qed
    ultimately show ?thesis
      by (simp add: allStackBaseNames_def metaBuilder_def metaBuilderBase_def bases_def
          flip: cands_def)
  qed
  have bases_set: "set bases = ?base ` set cands"
    by (auto simp: bases_def setDedup_set image_iff)
  have bases_distinct: "distinct bases"
    unfolding bases_def by (simp add: distinct_map setDedup_distinct inj_on_def)
  have base_is: "\<And>x. x \<in> set bases \<Longrightarrow> x \<in> set cands \<and> isStackBase env par x"
    using bases_set base_props by auto
  have full: "\<And>x. x \<in> set bases \<Longrightarrow>
      \<exists>stack. fullStackFromBranch ?sb x = Some stack \<and>
        stackBranches stack = {c. (c, x) \<in> ?R\<^sup>*} \<and>
        source stack = 0 \<and> branch (store stack ! 0) = x"
  proof -
    fix x assume "x \<in> set bases"
    then have "metaGetStackBaseBranch env par x = Some x"
      using base_is isStackBase_self by blast
    then have "fullStackFromBranch ?sb x =
        upstackInclusiveFromBranchWithoutParents (metaBuilderBase env par) x"
      by (simp add: metaBuilder_def)
    then show "\<exists>stack. fullStackFromBranch ?sb x = Some stack \<and>
        stackBranches stack = {c. (c, x) \<in> ?R\<^sup>*} \<and>
        source stack = 0 \<and> branch (store stack ! 0) = x"
      using upstack_branches [OF acy, of x] by simp
  qed
  have stacks_eq: "allStacksFromTrunk env ?sb = Some stacks"
    unfolding allStacksFromTrunk_def names stacks_def
    by (simp, rule allReturned_map) (use full in blast)
  have len: "length stacks = length bases" by (simp add: stacks_def)
  have at: "\<And>i. i < length bases \<Longrightarrow>
      stackBranches (stacks ! i) = {c. (c, bases ! i) \<in> ?R\<^sup>*} \<and>
      source (stacks ! i) = 0 \<and> branch (store (stacks ! i) ! 0) = bases ! i"
  proof -
    fix i assume i: "i < length bases"
    then have "bases ! i \<in> set bases" by simp
    from full [OF this] obtain stack where stack:
      "fullStackFromBranch ?sb (bases ! i) = Some stack"
      "stackBranches stack = {c. (c, bases ! i) \<in> ?R\<^sup>*}"
      "source stack = 0" "branch (store stack ! 0) = bases ! i"
      by blast
    have "stacks ! i = stack"
      using i stack(1) by (simp add: stacks_def)
    then show "stackBranches (stacks ! i) = {c. (c, bases ! i) \<in> ?R\<^sup>*} \<and>
      source (stacks ! i) = 0 \<and> branch (store (stacks ! i) ! 0) = bases ! i"
      using stack(2,3,4) by simp
  qed
  have sources: "\<forall>i<length stacks. branch (store (stacks ! i) ! source (stacks ! i)) = bases ! i"
    using at len by simp
  have desc_cand: "\<And>c x. x \<in> set bases \<Longrightarrow> (c, x) \<in> ?R\<^sup>* \<Longrightarrow> c \<in> set cands"
  proof -
    fix c x assume x: "x \<in> set bases" and cx: "(c, x) \<in> ?R\<^sup>*"
    show "c \<in> set cands"
    proof (cases "c = x")
      case True
      then show ?thesis using base_is [OF x] by simp
    next
      case False
      then obtain z where "(c, z) \<in> ?R"
        using cx by (auto elim: converse_rtranclE)
      then show ?thesis by (rule edge_notroot)
    qed
  qed
  have union: "\<Union> (stackBranches ` set stacks) = trackedBranches env"
  proof (intro set_eqI iffI)
    fix c assume "c \<in> \<Union> (stackBranches ` set stacks)"
    then obtain i where i: "i < length stacks" "c \<in> stackBranches (stacks ! i)"
      by (auto simp: in_set_conv_nth)
    then have "(c, bases ! i) \<in> ?R\<^sup>*" "bases ! i \<in> set bases"
      using at [of i] len by simp_all
    then show "c \<in> trackedBranches env"
      using desc_cand tracked by blast
  next
    fix c assume "c \<in> trackedBranches env"
    then have c: "c \<in> set cands" using tracked by simp
    then have "?base c \<in> set bases" using bases_set by blast
    then obtain i where i: "i < length bases" "bases ! i = ?base c"
      by (auto simp: in_set_conv_nth)
    then have "c \<in> stackBranches (stacks ! i)"
      using at [OF i(1)] base_props [OF c] by simp
    then show "c \<in> \<Union> (stackBranches ` set stacks)"
      using i(1) len by (metis UN_I nth_mem)
  qed
  have above_base: "\<And>x y. x \<in> set bases \<Longrightarrow> y \<in> set bases \<Longrightarrow> (x, y) \<in> ?R\<^sup>* \<Longrightarrow> x = y"
  proof (rule ccontr)
    fix x y assume x: "x \<in> set bases" and y: "y \<in> set bases" and xy: "(x, y) \<in> ?R\<^sup>*"
      and neq: "x \<noteq> y"
    obtain z where z: "(x, z) \<in> ?R" "(z, y) \<in> ?R\<^sup>*"
      using xy neq by (auto elim: converse_rtranclE)
    have "z \<in> set cands" using desc_cand [OF y z(2)] .
    then have "\<not> isRootName env (name z)" by (rule cand_notroot)
    moreover have "par (name x) = Some (name z)" using z(1) by (simp add: metaChildRel)
    ultimately show False using base_is [OF x] by (simp add: isStackBase_def)
  qed
  have disjoint: "\<forall>i<length stacks. \<forall>j<length stacks. i \<noteq> j \<longrightarrow>
      stackBranches (stacks ! i) \<inter> stackBranches (stacks ! j) = {}"
  proof (intro allI impI)
    fix i j assume i: "i < length stacks" and j: "j < length stacks" and ij: "i \<noteq> j"
    have neq: "bases ! i \<noteq> bases ! j"
      using bases_distinct i j ij len by (simp add: nth_eq_iff_index_eq)
    have bi: "bases ! i \<in> set bases" and bj: "bases ! j \<in> set bases"
      using i j len by simp_all
    show "stackBranches (stacks ! i) \<inter> stackBranches (stacks ! j) = {}"
    proof (rule ccontr)
      assume "stackBranches (stacks ! i) \<inter> stackBranches (stacks ! j) \<noteq> {}"
      then obtain c where c: "(c, bases ! i) \<in> ?R\<^sup>*" "(c, bases ! j) \<in> ?R\<^sup>*"
        using at [of i] at [of j] i j len by auto
      have "(bases ! i, bases ! j) \<in> ?R\<^sup>* \<or> (bases ! j, bases ! i) \<in> ?R\<^sup>*"
        using single_valued_confluent [OF metaChildRel_single_valued c] .
      then show False using above_base [OF bi bj] above_base [OF bj bi] neq by auto
    qed
  qed
  show "\<exists>bases stacks.
        allStackBaseNames env ?sb = Some bases \<and>
        allStacksFromTrunk env ?sb = Some stacks \<and>
        distinct bases \<and> length stacks = length bases \<and>
        (\<forall>i<length stacks. branch (store (stacks ! i) ! source (stacks ! i)) = bases ! i) \<and>
        \<Union> (stackBranches ` set stacks) = trackedBranches env \<and>
        (\<forall>i<length stacks. \<forall>j<length stacks. i \<noteq> j \<longrightarrow>
           stackBranches (stacks ! i) \<inter> stackBranches (stacks ! j) = {})"
    using names stacks_eq bases_distinct len sources union disjoint by blast
qed

lemma exEnv_childRel:
  "childRel (metaGetChildrenForBranch exEnv exParentName) =
     {(Branch ''f1'', Branch ''main''), (Branch ''f2'', Branch ''f1''),
      (Branch ''g1'', Branch ''main'')}"
  by (auto simp: metaChildRel exEnv_def exParentName_def split: if_splits intro: Branch.expand)

lemma exEnv_acyclic: "acyclic (childRel (metaGetChildrenForBranch exEnv exParentName))"
proof (rule acyclicI_order [where f = "\<lambda>b. if name b = ''main'' then 0 else
    if name b = ''f2'' then 2 else (1::nat)"])
  fix a b assume "(a, b) \<in> childRel (metaGetChildrenForBranch exEnv exParentName)"
  then show "(if name b = ''main'' then 0 else if name b = ''f2'' then 2 else (1::nat))
      < (if name a = ''main'' then 0 else if name a = ''f2'' then 2 else (1::nat))"
    by (auto simp: exEnv_childRel)
qed

lemma exEnv_roots: "rootsHaveNoParent exEnv exParentName"
  by (simp add: rootsHaveNoParent_def exEnv_def exParentName_def)

lemma exEnv_bases:
  "allStackBaseNames exEnv (metaBuilder exEnv exParentName) = Some [Branch ''f1'', Branch ''g1'']"
  by (simp add: allStackBaseNames_def metaBuilder_def metaBuilderBase_def
      metaGetStackBaseBranch.simps isRootName_def exEnv_def exParentName_def setDedup_def)

lemma exEnv_stacks:
  "allStacksFromTrunk exEnv (metaBuilder exEnv exParentName) = Some exStacks"
  unfolding allStacksFromTrunk_def exEnv_bases exStacks_def
  by (simp add: metaBuilder_def metaBuilderBase_def
      metaGetStackBaseBranch.simps isRootName_def exEnv_def exParentName_def
      upstackInclusiveFromBranchWithoutParents_def expandLoop.simps expandStep_def
      expandNode_def array_pop_def metaGetChildrenForBranch_def sourceNode_def Let_def)

theorem allStacksFromTrunk_partitions_witness:
  "acyclic (childRel (metaGetChildrenForBranch exEnv exParentName)) \<and>
   rootsHaveNoParent exEnv exParentName \<and>
   allStackBaseNames exEnv (metaBuilder exEnv exParentName) =
     Some [Branch ''f1'', Branch ''g1''] \<and>
   allStacksFromTrunk exEnv (metaBuilder exEnv exParentName) = Some exStacks \<and>
   \<Union> (stackBranches ` set exStacks) = trackedBranches exEnv \<and>
   stackBranches (exStacks ! 0) \<inter> stackBranches (exStacks ! 1) = {}"
proof -
  have "\<exists>bases stacks.
        allStackBaseNames exEnv (metaBuilder exEnv exParentName) = Some bases \<and>
        allStacksFromTrunk exEnv (metaBuilder exEnv exParentName) = Some stacks \<and>
        distinct bases \<and> length stacks = length bases \<and>
        (\<forall>i<length stacks. branch (store (stacks ! i) ! source (stacks ! i)) = bases ! i) \<and>
        \<Union> (stackBranches ` set stacks) = trackedBranches exEnv \<and>
        (\<forall>i<length stacks. \<forall>j<length stacks. i \<noteq> j \<longrightarrow>
           stackBranches (stacks ! i) \<inter> stackBranches (stacks ! j) = {})"
    by (rule allStacksFromTrunk_partitions [THEN mp, OF conjI [OF exEnv_acyclic exEnv_roots]])
  then obtain bases where "\<exists>stacks.
        allStackBaseNames exEnv (metaBuilder exEnv exParentName) = Some bases \<and>
        allStacksFromTrunk exEnv (metaBuilder exEnv exParentName) = Some stacks \<and>
        distinct bases \<and> length stacks = length bases \<and>
        (\<forall>i<length stacks. branch (store (stacks ! i) ! source (stacks ! i)) = bases ! i) \<and>
        \<Union> (stackBranches ` set stacks) = trackedBranches exEnv \<and>
        (\<forall>i<length stacks. \<forall>j<length stacks. i \<noteq> j \<longrightarrow>
           stackBranches (stacks ! i) \<inter> stackBranches (stacks ! j) = {})" ..
  then obtain stacks where r:
        "allStackBaseNames exEnv (metaBuilder exEnv exParentName) = Some bases \<and>
        allStacksFromTrunk exEnv (metaBuilder exEnv exParentName) = Some stacks \<and>
        distinct bases \<and> length stacks = length bases \<and>
        (\<forall>i<length stacks. branch (store (stacks ! i) ! source (stacks ! i)) = bases ! i) \<and>
        \<Union> (stackBranches ` set stacks) = trackedBranches exEnv \<and>
        (\<forall>i<length stacks. \<forall>j<length stacks. i \<noteq> j \<longrightarrow>
           stackBranches (stacks ! i) \<inter> stackBranches (stacks ! j) = {})" ..
  note r2 = r [THEN conjunct2, THEN conjunct1]
  note r6 = r [THEN conjunct2, THEN conjunct2, THEN conjunct2, THEN conjunct2, THEN conjunct2,
    THEN conjunct1]
  note r7 = r [THEN conjunct2, THEN conjunct2, THEN conjunct2, THEN conjunct2, THEN conjunct2,
    THEN conjunct2]
  have st: "stacks = exStacks"
    using r2 by (simp add: exEnv_stacks)
  have len: "length exStacks = 2" by (simp add: exStacks_def)
  have union: "\<Union> (stackBranches ` set exStacks) = trackedBranches exEnv"
    using r6 unfolding st .
  have "(0::nat) < length exStacks \<longrightarrow> (\<forall>j<length exStacks. 0 \<noteq> j \<longrightarrow>
      stackBranches (exStacks ! 0) \<inter> stackBranches (exStacks ! j) = {})"
    using r7 unfolding st by (rule spec)
  then have "1 < length exStacks \<longrightarrow> (0::nat) \<noteq> 1 \<longrightarrow>
      stackBranches (exStacks ! 0) \<inter> stackBranches (exStacks ! 1) = {}"
    unfolding len by simp
  then have disj: "stackBranches (exStacks ! 0) \<inter> stackBranches (exStacks ! 1) = {}"
    unfolding len by simp
  show ?thesis
    by (intro conjI exEnv_acyclic exEnv_roots exEnv_bases exEnv_stacks union disj)
qed

end
